theory Spec2Isabelle
  imports Complex_Main "HOL-Library.Log_Nat"
begin

section \<open>The tiny compiler: lexer, parser, evaluator and code generator\<close>

text \<open>
  The program of \<^verbatim>\<open>src/index.ts\<close> is a pipeline of four pure functions:
  \<^verbatim>\<open>lex\<close> (lines 3 to 7), \<^verbatim>\<open>parse\<close> (lines 32 to 57), \<^verbatim>\<open>evaluate\<close> (lines 59 to 68) and
  \<^verbatim>\<open>compile\<close> (lines 70 to 84). Each is translated below into a HOL function of the same
  name. What the TypeScript leaves to the language is written out: the whitespace that
  \<^verbatim>\<open>trim\<close> removes, the conversion done by \<^verbatim>\<open>parseInt\<close>, the arithmetic of the
  \<^verbatim>\<open>number\<close> type, the conversion of a number to a string, and property lookup on an
  object literal.

  A string is a list of \<^typ>\<open>char\<close>; each character stands for the UTF-16 code unit of the
  same number, so the strings covered are those over the code units 0 to 255.
\<close>

subsection \<open>Lexer\<close>

text \<open>
  The white space of ECMAScript (\<^verbatim>\<open>WhiteSpace\<close> and \<^verbatim>\<open>LineTerminator\<close>) among the code
  units 0 to 255: tab, line feed, vertical tab, form feed, carriage return, space and
  no-break space. This is what \<^verbatim>\<open>String.prototype.trim\<close> removes and what \<^verbatim>\<open>parseInt\<close>
  skips.
\<close>

definition is_ws :: "char \<Rightarrow> bool" where
  "is_ws c = (of_char c \<in> {9, 10, 11, 12, 13, 32, 160::nat})"

text \<open>
  \<^verbatim>\<open>str.split(sep)\<close> for a separator of one character, as the pieces between the
  characters satisfying \<open>p\<close>: the empty string gives one empty piece, and two adjacent
  separators have an empty piece between them.
\<close>

fun split_on :: "(char \<Rightarrow> bool) \<Rightarrow> string \<Rightarrow> string list" where
  "split_on p [] = [[]]"
| "split_on p (c # cs) =
     (if p c then [] # split_on p cs
      else (case split_on p cs of [] \<Rightarrow> [[c]] | t # ts \<Rightarrow> (c # t) # ts))"

definition trim :: "string \<Rightarrow> string" where
  "trim s = rev (dropWhile is_ws (rev (dropWhile is_ws s)))"

text \<open>\<^verbatim>\<open>str.split(' ').map((s) => s.trim()).filter((s) => s.length > 0)\<close>\<close>

definition lex :: "string \<Rightarrow> string list" where
  "lex str =
     filter (\<lambda>s. length s > 0) (map (\<lambda>s. trim s) (split_on (\<lambda>c. c = CHR '' '') str))"

text \<open>\<^verbatim>\<open>Array.prototype.join\<close> on an array of strings.\<close>

fun join :: "string \<Rightarrow> string list \<Rightarrow> string" where
  "join sep [] = []"
| "join sep [x] = x"
| "join sep (x # y # ys) = x @ sep @ join sep (y # ys)"

subsection \<open>The number type\<close>

text \<open>
  A \<^verbatim>\<open>number\<close> is an IEEE 754 binary64 value: not-a-number, an infinity with its sign, or
  a finite value given by its sign (\<open>True\<close> for negative) and its magnitude, a
  non-negative rational. \<open>Finite True 0\<close> is the negative zero.
\<close>

datatype number = NaN | Infinity bool | Finite bool rat

definition round_half_even :: "rat \<Rightarrow> int" where
  "round_half_even q =
     (let f = \<lfloor>q\<rfloor>; d = q - of_int f
      in if d < 1/2 then f else if 1/2 < d then f + 1 else if even f then f else f + 1)"

text \<open>For \<open>0 < a\<close>, the exponent \<open>k\<close> with \<open>2 powi k \<le> a < 2 powi (k + 1)\<close>.\<close>

definition ilog2 :: "rat \<Rightarrow> int" where
  "ilog2 a = (case quotient_of a of (n, d) \<Rightarrow>
     (let k = bitlen n - bitlen d in if 2 powi k \<le> a then k else k - 1))"

text \<open>
  Rounding of a magnitude to binary64, to nearest with ties to even: 53 significant bits,
  least exponent \<open>- 1074\<close> (subnormal values included), and infinity from \<open>2 powi 1024\<close> on.
\<close>

definition to_double :: "bool \<Rightarrow> rat \<Rightarrow> number" where
  "to_double neg a =
     (if a = 0 then Finite neg 0
      else let e = max (ilog2 a - 52) (- 1074);
               m = round_half_even (a / 2 powi e);
               v = of_int m * 2 powi e
           in if 2 powi 1024 \<le> v then Infinity neg else Finite neg v)"

definition signed :: "bool \<Rightarrow> rat \<Rightarrow> rat" where
  "signed neg m = (if neg then - m else m)"

text \<open>The operators \<^verbatim>\<open>+\<close>, \<^verbatim>\<open>-\<close>, \<^verbatim>\<open>*\<close> and \<^verbatim>\<open>/\<close> on two numbers. None of them throws.\<close>

fun js_add :: "number \<Rightarrow> number \<Rightarrow> number" where
  "js_add NaN b = NaN"
| "js_add a NaN = NaN"
| "js_add (Infinity s) (Infinity t) = (if s = t then Infinity s else NaN)"
| "js_add (Infinity s) (Finite t y) = Infinity s"
| "js_add (Finite s x) (Infinity t) = Infinity t"
| "js_add (Finite s x) (Finite t y) =
     (let r = signed s x + signed t y
      in if r = 0 then Finite (s \<and> t) 0 else to_double (r < 0) \<bar>r\<bar>)"

fun js_neg :: "number \<Rightarrow> number" where
  "js_neg NaN = NaN"
| "js_neg (Infinity s) = Infinity (\<not> s)"
| "js_neg (Finite s x) = Finite (\<not> s) x"

definition js_sub :: "number \<Rightarrow> number \<Rightarrow> number" where
  "js_sub a b = js_add a (js_neg b)"

fun js_mul :: "number \<Rightarrow> number \<Rightarrow> number" where
  "js_mul NaN b = NaN"
| "js_mul a NaN = NaN"
| "js_mul (Infinity s) (Infinity t) = Infinity (s \<noteq> t)"
| "js_mul (Infinity s) (Finite t y) = (if y = 0 then NaN else Infinity (s \<noteq> t))"
| "js_mul (Finite s x) (Infinity t) = (if x = 0 then NaN else Infinity (s \<noteq> t))"
| "js_mul (Finite s x) (Finite t y) = to_double (s \<noteq> t) (x * y)"

fun js_div :: "number \<Rightarrow> number \<Rightarrow> number" where
  "js_div NaN b = NaN"
| "js_div a NaN = NaN"
| "js_div (Infinity s) (Infinity t) = NaN"
| "js_div (Infinity s) (Finite t y) = Infinity (s \<noteq> t)"
| "js_div (Finite s x) (Infinity t) = Finite (s \<noteq> t) 0"
| "js_div (Finite s x) (Finite t y) =
     (if y = 0 then (if x = 0 then NaN else Infinity (s \<noteq> t))
      else to_double (s \<noteq> t) (x / y))"

subsection \<open>Conversion of a number to a string\<close>

text \<open>
  \<^verbatim>\<open>Number::toString\<close> in radix 10, which \<^verbatim>\<open>join\<close> applies to the numbers of an array.
  For a positive finite value \<open>x\<close> it takes the least number \<open>k\<close> of digits for which some
  \<open>s\<close> of \<open>k\<close> digits and some \<open>n\<close> have \<open>s * 10 powi (n - k)\<close> round to \<open>x\<close>; among
  several such \<open>s\<close> the one nearest to \<open>x\<close> is taken, as the standard recommends.
  Seventeen digits always suffice.
\<close>

fun digit_chars :: "nat \<Rightarrow> nat \<Rightarrow> string" where
  "digit_chars 0 n = []"
| "digit_chars (Suc k) n = digit_chars k (n div 10) @ [''0123456789'' ! (n mod 10)]"

definition decimal :: "nat \<Rightarrow> string" where
  "decimal n = (if n = 0 then ''0'' else digit_chars (floorlog 10 n) n)"

text \<open>For \<open>0 < a\<close>, the exponent \<open>k\<close> with \<open>10 powi k \<le> a < 10 powi (k + 1)\<close>.\<close>

definition ilog10 :: "rat \<Rightarrow> int" where
  "ilog10 a = (case quotient_of a of (n, d) \<Rightarrow>
     (let k = int (floorlog 10 (nat n)) - int (floorlog 10 (nat d))
      in if 10 powi k \<le> a then k else k - 1))"

text \<open>
  The digit strings \<open>s\<close> of \<open>k\<close> digits, each with its \<open>n\<close>, that round to \<open>x\<close>, the
  nearest to \<open>x\<close> first; \<open>n0\<close> is the number of digits of the integer part of \<open>x\<close>.
\<close>

definition candidates :: "rat \<Rightarrow> int \<Rightarrow> nat \<Rightarrow> (nat \<times> int) list" where
  "candidates x n0 k =
     (let sc = x / 10 powi (n0 - int k);
          f = nat \<lfloor>sc\<rfloor>;
          lo = (f, n0);
          hi = (if f + 1 = 10 ^ k then (10 ^ (k - 1), n0 + 1) else (f + 1, n0));
          ok = (\<lambda>(s, n). 10 ^ (k - 1) \<le> s \<and> s < 10 ^ k \<and>
                   to_double False (of_nat s * 10 powi (n - int k)) = Finite False x);
          d = sc - of_nat f
      in filter ok
           (if d < 1/2 then [lo, hi] else if 1/2 < d then [hi, lo]
            else if even f then [lo, hi] else [hi, lo]))"

fun shortest :: "rat \<Rightarrow> int \<Rightarrow> nat \<Rightarrow> nat \<Rightarrow> nat \<times> int \<times> nat" where
  "shortest x n0 k 0 = (nat \<lfloor>x / 10 powi (n0 - int k)\<rfloor>, n0, k)"
| "shortest x n0 k (Suc fuel) =
     (case candidates x n0 k of
        (s, n) # _ \<Rightarrow> (s, n, k)
      | [] \<Rightarrow> shortest x n0 (Suc k) fuel)"

definition positive_to_string :: "rat \<Rightarrow> string" where
  "positive_to_string x =
     (case shortest x (ilog10 x + 1) 1 17 of (s, n, k) \<Rightarrow>
        (let ds = digit_chars k s in
         if int k \<le> n \<and> n \<le> 21 then ds @ replicate (nat (n - int k)) CHR ''0''
         else if 0 < n \<and> n \<le> 21 then take (nat n) ds @ ''.'' @ drop (nat n) ds
         else if - 6 < n \<and> n \<le> 0 then ''0.'' @ replicate (nat (- n)) CHR ''0'' @ ds
         else (if k = 1 then ds else take 1 ds @ ''.'' @ drop 1 ds)
              @ ''e'' @ (if n - 1 < 0 then ''-'' else ''+'') @ decimal (nat \<bar>n - 1\<bar>)))"

fun number_to_string :: "number \<Rightarrow> string" where
  "number_to_string NaN = ''NaN''"
| "number_to_string (Infinity neg) = (if neg then ''-Infinity'' else ''Infinity'')"
| "number_to_string (Finite neg x) =
     (if x = 0 then ''0''
      else (if neg then ''-'' else []) @ positive_to_string x)"

subsection \<open>Parser\<close>

text \<open>
  The type \<^verbatim>\<open>Parser\<close> (lines 15 to 30): a \<^verbatim>\<open>NumberParser\<close> holds its \<^verbatim>\<open>val\<close>, an
  \<^verbatim>\<open>OperationParser\<close> its \<^verbatim>\<open>val\<close> and its \<^verbatim>\<open>expression\<close>. The \<^verbatim>\<open>val\<close> of an operation is
  what \<^verbatim>\<open>consume()\<close> returned: a token, or \<^verbatim>\<open>undefined\<close> (\<open>None\<close>) from a read past the
  last token.
\<close>

datatype parser = NumberParser number | OperationParser "string option" "parser list"

definition ToString :: "string option \<Rightarrow> string" where
  "ToString v = (case v of None \<Rightarrow> ''undefined'' | Some s \<Rightarrow> s)"

definition is_digit :: "char \<Rightarrow> bool" where
  "is_digit c = (48 \<le> (of_char c :: nat) \<and> (of_char c :: nat) \<le> 57)"

text \<open>\<^verbatim>\<open>/\d/.test(v)\<close>: the string form of \<open>v\<close> has a decimal digit somewhere.\<close>

definition test_digit :: "string option \<Rightarrow> bool" where
  "test_digit v = (\<exists>c \<in> set (ToString v). is_digit c)"

text \<open>The condition of \<^verbatim>\<open>while (peek())\<close>: \<^verbatim>\<open>undefined\<close> and the empty string are falsy.\<close>

definition truthy :: "string option \<Rightarrow> bool" where
  "truthy v = (case v of None \<Rightarrow> False | Some s \<Rightarrow> s \<noteq> [])"

definition digit_value :: "nat \<Rightarrow> char \<Rightarrow> nat option" where
  "digit_value radix c =
     (let n = (of_char c :: nat);
          v = (if 48 \<le> n \<and> n \<le> 57 then Some (n - 48)
               else if 97 \<le> n \<and> n \<le> 122 then Some (n - 87)
               else if 65 \<le> n \<and> n \<le> 90 then Some (n - 55)
               else None)
      in case v of None \<Rightarrow> None | Some d \<Rightarrow> if d < radix then Some d else None)"

text \<open>
  \<^verbatim>\<open>parseInt\<close> with no radix argument: leading white space is skipped, a sign is read, a
  prefix \<^verbatim>\<open>0x\<close> or \<^verbatim>\<open>0X\<close> selects radix 16, and the longest run of digits that follows is
  converted; there is no number (\<open>NaN\<close>) when that run is empty. The value is taken
  exactly and then rounded, which the standard allows for every length of the run.
\<close>

definition parseInt :: "string \<Rightarrow> number" where
  "parseInt inputString =
     (let S = dropWhile is_ws inputString;
          neg = (S \<noteq> [] \<and> hd S = CHR ''-'');
          S1 = (if S \<noteq> [] \<and> (hd S = CHR ''+'' \<or> hd S = CHR ''-'') then tl S else S);
          hex = (take 2 S1 = ''0x'' \<or> take 2 S1 = ''0X'');
          R = (if hex then 16 else 10);
          S2 = (if hex then drop 2 S1 else S1);
          Z = takeWhile (\<lambda>c. digit_value R c \<noteq> None) S2
      in if Z = [] then NaN
         else to_double neg
                (of_nat (foldl (\<lambda>a c. case digit_value R c of Some d \<Rightarrow> a * R + d | None \<Rightarrow> a)
                           0 Z)))"

text \<open>
  The cursor \<^verbatim>\<open>count\<close> of \<^verbatim>\<open>parse\<close> is passed to each function and returned with its
  result. \<^verbatim>\<open>tokens[count]\<close> past the last token is \<^verbatim>\<open>undefined\<close>.
\<close>

definition peek :: "string list \<Rightarrow> nat \<Rightarrow> string option" where
  "peek tokens count = (if count < length tokens then Some (tokens ! count) else None)"

definition consume :: "string list \<Rightarrow> nat \<Rightarrow> string option \<times> nat" where
  "consume tokens count = (peek tokens count, Suc count)"

definition parseNum :: "string list \<Rightarrow> nat \<Rightarrow> parser \<times> nat" where
  "parseNum tokens count =
     (case consume tokens count of
        (v, count') \<Rightarrow> (NumberParser (parseInt (ToString v)), count'))"

text \<open>
  \<^verbatim>\<open>parseExpression\<close> and \<^verbatim>\<open>parseOp\<close> call each other; \<open>parseOp_while\<close> is the loop of
  \<^verbatim>\<open>parseOp\<close>, with the operands pushed so far.
\<close>

function (domintros)
  parseExpression :: "string list \<Rightarrow> nat \<Rightarrow> parser \<times> nat" and
  parseOp :: "string list \<Rightarrow> nat \<Rightarrow> parser \<times> nat" and
  parseOp_while :: "string list \<Rightarrow> nat \<Rightarrow> parser list \<Rightarrow> parser list \<times> nat"
where
  "parseExpression tokens count =
     (if test_digit (peek tokens count) then parseNum tokens count else parseOp tokens count)"
| "parseOp tokens count =
     (case consume tokens count of (v, count') \<Rightarrow>
        (case parseOp_while tokens count' [] of (expression, count'') \<Rightarrow>
           (OperationParser v expression, count'')))"
| "parseOp_while tokens count expression =
     (if truthy (peek tokens count)
      then (case parseExpression tokens count of (e, count') \<Rightarrow>
              parseOp_while tokens count' (expression @ [e]))
      else (expression, count))"
  by pat_completeness auto

text \<open>
  Every call moves the cursor forward and the loop runs only while the cursor is inside
  the token sequence, so the parser returns on every input.
\<close>

termination
proof (relation "measure (\<lambda>x. case x of
      Inl (tokens, count) \<Rightarrow> 3 * (length tokens - count) + 2
    | Inr (Inl (tokens, count)) \<Rightarrow> 3 * (length tokens - count) + 1
    | Inr (Inr (tokens, count, expression)) \<Rightarrow>
        (if count < length tokens then 3 * (length tokens - count) + 3 else 0))",
    goal_cases)
  case 1
  then show ?case by simp
next
  case (2 tokens count)
  then show ?case by simp
next
  case (3 tokens count v count')
  then show ?case by (auto simp: consume_def)
next
  case (4 tokens count)
  then show ?case by (auto simp: truthy_def peek_def split: option.splits if_splits)
next
  case (5 tokens count expression e count')
  have advances:
    "parseExpression_parseOp_parseOp_while_dom (Inl (ts, c)) \<Longrightarrow>
       c < snd (parseExpression ts c)"
    "parseExpression_parseOp_parseOp_while_dom (Inr (Inl (ts, c))) \<Longrightarrow>
       c < snd (parseOp ts c)"
    "parseExpression_parseOp_parseOp_while_dom (Inr (Inr (ts, c, ex))) \<Longrightarrow>
       c \<le> snd (parseOp_while ts c ex)" for ts c ex
  proof (induction ts c and ts c and ts c ex
      rule: parseExpression_parseOp_parseOp_while.pinduct)
    case (1 tokens count)
    then show ?case
      by (simp add: parseExpression.psimps parseNum_def consume_def)
  next
    case (2 tokens count)
    then show ?case
      by (auto simp: parseOp.psimps consume_def split: prod.splits)
  next
    case (3 tokens count expression)
    then show ?case
      by (auto simp: parseOp_while.psimps split: prod.splits)
  qed
  have "count < snd (parseExpression tokens count)" using 5(3) by (rule advances(1))
  then have "count < count'" by (simp add: 5(2) [symmetric])
  moreover have "count < length tokens"
    using 5(1) by (auto simp: truthy_def peek_def split: option.splits if_splits)
  ultimately show ?case by auto
qed

declare parseExpression.simps [simp del] parseOp.simps [simp del] parseOp_while.simps [simp del]

definition parse :: "string list \<Rightarrow> parser" where
  "parse tokens = fst (parseExpression tokens 0)"

subsection \<open>Property lookup on the operation maps\<close>

text \<open>
  \<^verbatim>\<open>operationMap[ast.val]\<close> looks the string form of \<^verbatim>\<open>ast.val\<close> up among the four own
  properties of the object literal, and then on its prototype, \<^verbatim>\<open>Object.prototype\<close>.
  That object belongs to the engine that runs the program. It is a parameter \<open>proto\<close>
  here: \<open>proto k = Some text\<close> when it has a property \<open>k\<close>, whose string form is
  \<open>text\<close>. A key found in neither place gives \<^verbatim>\<open>undefined\<close>.
\<close>

type_synonym prototype = "string \<Rightarrow> string option"

datatype 'a property = Own 'a | Proto string | Absent

definition get_property :: "(string \<times> 'a) list \<Rightarrow> prototype \<Rightarrow> string option \<Rightarrow> 'a property" where
  "get_property own proto key =
     (case map_of own (ToString key) of
        Some v \<Rightarrow> Own v
      | None \<Rightarrow> (case proto (ToString key) of Some text \<Rightarrow> Proto text | None \<Rightarrow> Absent))"

text \<open>\<^verbatim>\<open>Object.prototype\<close> as V8 has it, for use in examples.\<close>

definition object_prototype :: prototype where
  "object_prototype = map_of
     [(''constructor'', ''function Object() { [native code] }''),
      (''__defineGetter__'', ''function __defineGetter__() { [native code] }''),
      (''__defineSetter__'', ''function __defineSetter__() { [native code] }''),
      (''__lookupGetter__'', ''function __lookupGetter__() { [native code] }''),
      (''__lookupSetter__'', ''function __lookupSetter__() { [native code] }''),
      (''hasOwnProperty'', ''function hasOwnProperty() { [native code] }''),
      (''isPrototypeOf'', ''function isPrototypeOf() { [native code] }''),
      (''propertyIsEnumerable'', ''function propertyIsEnumerable() { [native code] }''),
      (''toLocaleString'', ''function toLocaleString() { [native code] }''),
      (''toString'', ''function toString() { [native code] }''),
      (''valueOf'', ''function valueOf() { [native code] }''),
      (''__proto__'', ''[object Object]'')]"

subsection \<open>Evaluator\<close>

text \<open>
  \<^verbatim>\<open>evaluate\<close> returns a number or stops in one of three ways: the \<^verbatim>\<open>TypeError\<close> of
  calling \<^verbatim>\<open>undefined\<close> (\<open>NotAFunction\<close>), the \<^verbatim>\<open>TypeError\<close> of \<^verbatim>\<open>reduce\<close> on an empty array
  with no initial value (\<open>ReduceOfEmptyArray\<close>), or by reaching a property of
  \<^verbatim>\<open>Object.prototype\<close> in place of an operation (\<open>InheritedProperty\<close>). In that last
  case the program itself goes on, with whatever the property returns when called,
  which need not be a number (\<^verbatim>\<open>hasOwnProperty\<close> returns \<^verbatim>\<open>false\<close>); the values other
  than numbers are not described here, and the evaluation is followed no further. No
  property below is about such a tree.
\<close>

datatype failure = NotAFunction | ReduceOfEmptyArray | InheritedProperty

text \<open>
  The results of \<^verbatim>\<open>ast.expression.map(evaluate)\<close>, in order; the first operand that
  stops the evaluation stops the whole of it.
\<close>

fun sequence :: "('e + 'a) list \<Rightarrow> 'e + 'a list" where
  "sequence [] = Inr []"
| "sequence (Inl e # rs) = Inl e"
| "sequence (Inr v # rs) = (case sequence rs of Inl e \<Rightarrow> Inl e | Inr vs \<Rightarrow> Inr (v # vs))"

text \<open>\<^verbatim>\<open>args.reduce(f, seed)\<close> and \<^verbatim>\<open>args.reduce(f)\<close>.\<close>

definition reduce_seed ::
  "(number \<Rightarrow> number \<Rightarrow> number) \<Rightarrow> number \<Rightarrow> number list \<Rightarrow> failure + number" where
  "reduce_seed f seed args = Inr (foldl f seed args)"

definition reduce :: "(number \<Rightarrow> number \<Rightarrow> number) \<Rightarrow> number list \<Rightarrow> failure + number" where
  "reduce f args =
     (case args of [] \<Rightarrow> Inl ReduceOfEmptyArray | a # rest \<Rightarrow> Inr (foldl f a rest))"

definition evaluate_operationMap :: "(string \<times> (number list \<Rightarrow> failure + number)) list" where
  "evaluate_operationMap =
     [(''sum'', \<lambda>args. reduce_seed (\<lambda>a b. js_add a b) (Finite False 0) args),
      (''sub'', \<lambda>args. reduce (\<lambda>a b. js_sub a b) args),
      (''div'', \<lambda>args. reduce (\<lambda>a b. js_div a b) args),
      (''mul'', \<lambda>args. reduce_seed (\<lambda>a b. js_mul a b) (Finite False 1) args)]"

fun evaluate :: "prototype \<Rightarrow> parser \<Rightarrow> failure + number" where
  "evaluate proto (NumberParser val) = Inr val"
| "evaluate proto (OperationParser val expression) =
     (case sequence (map (evaluate proto) expression) of
        Inl e \<Rightarrow> Inl e
      | Inr args \<Rightarrow>
          (case get_property evaluate_operationMap proto val of
             Own f \<Rightarrow> f args
           | Proto text \<Rightarrow> Inl InheritedProperty
           | Absent \<Rightarrow> Inl NotAFunction))"

subsection \<open>Code generator\<close>

text \<open>
  \<^verbatim>\<open>compileNum\<close> returns \<^verbatim>\<open>ast.val\<close>, a number, and \<^verbatim>\<open>compileOp\<close> a string, so the result
  of \<^verbatim>\<open>compile\<close> is one or the other. \<^verbatim>\<open>join\<close> and the template literal turn numbers
  into strings.
\<close>

datatype compiled = NumberValue number | StringValue string

fun to_string :: "compiled \<Rightarrow> string" where
  "to_string (NumberValue n) = number_to_string n"
| "to_string (StringValue s) = s"

definition compile_operationMap :: "(string \<times> string) list" where
  "compile_operationMap =
     [(''sum'', ''+''), (''sub'', ''-''), (''div'', ''/''), (''mul'', ''*'')]"

text \<open>The string that \<^verbatim>\<open>' ' + operationMap[ast.val] + ' '\<close> puts between the spaces.\<close>

definition property_text :: "string property \<Rightarrow> string" where
  "property_text p = (case p of Own s \<Rightarrow> s | Proto text \<Rightarrow> text | Absent \<Rightarrow> ''undefined'')"

fun compile :: "prototype \<Rightarrow> parser \<Rightarrow> compiled" where
  "compile proto (NumberParser val) = NumberValue val"
| "compile proto (OperationParser val expression) =
     StringValue
       (''('' @
        join ('' '' @ property_text (get_property compile_operationMap proto val) @ '' '')
          (map (\<lambda>e. to_string (compile proto e)) expression) @
        '')'')"

subsection \<open>Notions of the specification\<close>


text \<open>The values of the number nodes of a tree and the operators of its operation nodes.\<close>

fun numbers :: "parser \<Rightarrow> number list" where
  "numbers (NumberParser val) = [val]"
| "numbers (OperationParser val expression) = concat (map numbers expression)"

fun operators :: "parser \<Rightarrow> string option list" where
  "operators (NumberParser val) = []"
| "operators (OperationParser val expression) = val # concat (map operators expression)"

text \<open>The integer that a string of decimal digits denotes.\<close>

definition digits_value :: "string \<Rightarrow> nat" where
  "digits_value t = foldl (\<lambda>a c. a * 10 + (of_char c - 48)) 0 t"

text \<open>
  The evaluation that the specification describes: the stored value for a number node;
  for \<^verbatim>\<open>sum\<close> the left fold of the operand values from 0 with addition, for \<^verbatim>\<open>mul\<close>
  the left fold from 1 with multiplication, and for \<^verbatim>\<open>sub\<close> and \<^verbatim>\<open>div\<close> the left fold
  that starts from the first operand value and combines the others with subtraction
  and division.
\<close>

definition fold_first :: "(number \<Rightarrow> number \<Rightarrow> number) \<Rightarrow> number list \<Rightarrow> number" where
  "fold_first f vs = foldl f (hd vs) (tl vs)"

fun fold_eval :: "parser \<Rightarrow> number" where
  "fold_eval (NumberParser val) = val"
| "fold_eval (OperationParser val expression) =
     (let vs = map fold_eval expression in
      if val = Some ''sum'' then foldl js_add (Finite False 0) vs
      else if val = Some ''mul'' then foldl js_mul (Finite False 1) vs
      else if val = Some ''sub'' then fold_first js_sub vs
      else fold_first js_div vs)"

text \<open>
  The trees of the specification: every operator is one of the four, and the operand
  list of a \<^verbatim>\<open>sub\<close> or \<^verbatim>\<open>div\<close> node is not empty.
\<close>

fun recognized :: "parser \<Rightarrow> bool" where
  "recognized (NumberParser val) = True"
| "recognized (OperationParser val expression) =
     (val \<in> {Some ''sum'', Some ''sub'', Some ''div'', Some ''mul''} \<and>
      (val \<in> {Some ''sub'', Some ''div''} \<longrightarrow> expression \<noteq> []) \<and>
      list_all recognized expression)"

text \<open>
  The number that holds a rational (the positive zero for 0), the rationals other than 0
  that are binary64 values, and what it is for a number to stand next to a rational
  other than 0: it has the sign of the rational and is either finite and away from it
  by no more than its \<open>2 powi 53\<close>-th part (or by \<open>2 powi (- 1075)\<close>, for the
  smallest values), or infinite, the rational being \<open>2 powi 1023\<close> or more in magnitude.
\<close>

definition the_number :: "rat \<Rightarrow> number" where
  "the_number r = Finite (r < 0) \<bar>r\<bar>"

definition double :: "rat \<Rightarrow> bool" where
  "double r =
     (\<exists>m e. 0 < m \<and> m < 2 ^ 53 \<and> - 1074 \<le> e \<and> e \<le> 971 \<and> \<bar>r\<bar> = of_int m * 2 powi e)"

definition rounds_to :: "rat \<Rightarrow> number \<Rightarrow> bool" where
  "rounds_to r n =
     (case n of
        NaN \<Rightarrow> False
      | Infinity neg \<Rightarrow> neg = (r < 0) \<and> 2 powi 1023 \<le> \<bar>r\<bar>
      | Finite neg v \<Rightarrow>
          neg = (r < 0) \<and> \<bar>v - \<bar>r\<bar>\<bar> \<le> max (\<bar>r\<bar> * 2 powi (- 53)) (2 powi (- 1075)))"

section \<open>Properties of the lexer\<close>

lemma split_on_pieces_all:
  "\<forall>t\<in>set (split_on p s). \<forall>c\<in>set t. \<not> p c \<and> c \<in> set s"
  by (induction s) (auto split: list.splits)

lemma split_on_pieces:
  "t \<in> set (split_on p s) \<Longrightarrow> c \<in> set t \<Longrightarrow> \<not> p c \<and> c \<in> set s"
  using split_on_pieces_all by blast


lemma split_on_clean:
  "(\<And>c. c \<in> set t \<Longrightarrow> \<not> p c) \<Longrightarrow> split_on p t = [t]"
  by (induction t) auto

lemma split_on_append:
  "(\<And>c. c \<in> set t \<Longrightarrow> \<not> p c) \<Longrightarrow> p d \<Longrightarrow>
   split_on p (t @ d # rest) = t # split_on p rest"
  by (induction t) auto

lemma dropWhile_self:
  "xs = [] \<or> \<not> P (hd xs) \<Longrightarrow> dropWhile P xs = xs"
  by (cases xs) auto

lemma last_dropWhile_keep:
  "dropWhile P xs \<noteq> [] \<Longrightarrow> last (dropWhile P xs) = last xs"
  by (induction xs) (auto split: if_splits)



lemma trim_idem: "trim (trim s) = trim s"
proof -
  let ?a = "dropWhile is_ws s"
  let ?b = "dropWhile is_ws (rev ?a)"
  have hb: "?b = [] \<or> \<not> is_ws (hd ?b)" using hd_dropWhile by blast
  have lb: "?b = [] \<or> \<not> is_ws (last ?b)"
  proof (cases "?b = []")
    case False
    then have a: "?a \<noteq> []" by (cases ?a) simp_all
    have "last ?b = last (rev ?a)" using False by (rule last_dropWhile_keep)
    also have "\<dots> = hd ?a" using a by (simp add: last_rev)
    finally show ?thesis using hd_dropWhile [OF a] by simp
  qed simp
  have 1: "dropWhile is_ws (rev ?b) = rev ?b"
    by (rule dropWhile_self) (use lb in \<open>auto simp: hd_rev\<close>)
  have 2: "dropWhile is_ws ?b = ?b" by (rule dropWhile_self) (rule hb)
  show ?thesis unfolding trim_def by (simp add: 1 2)
qed

lemma trim_subset: "set (trim s) \<subseteq> set s"
proof
  fix c assume "c \<in> set (trim s)"
  then have "c \<in> set (dropWhile is_ws (rev (dropWhile is_ws s)))" by (simp add: trim_def)
  then have "c \<in> set (rev (dropWhile is_ws s))" by (rule set_dropWhileD)
  then have "c \<in> set (dropWhile is_ws s)" by simp
  then show "c \<in> set s" by (rule set_dropWhileD)
qed

lemma join_split:
  "ts \<noteq> [] \<Longrightarrow> (\<And>t c. t \<in> set ts \<Longrightarrow> c \<in> set t \<Longrightarrow> \<not> p c) \<Longrightarrow> p d \<Longrightarrow>
   split_on p (join [d] ts) = ts"
proof (induction ts rule: induct_list012)
  case 1
  then show ?case by simp
next
  case (2 x)
  then show ?case by (simp add: split_on_clean)
next
  case (3 x y ys)
  have "split_on p (x @ d # join [d] (y # ys)) = x # split_on p (join [d] (y # ys))"
    by (rule split_on_append) (use 3 in auto)
  moreover have "split_on p (join [d] (y # ys)) = y # ys"
    by (rule "3.IH"(2)) (use "3.prems" in auto)
  ultimately show ?case by simp
qed

text \<open>A token is not empty, has no white space at either end and has no space in it.\<close>

lemma lex_tokens:
  assumes "t \<in> set (lex s)"
  shows "t \<noteq> []" and "trim t = t" and "\<And>c. c \<in> set t \<Longrightarrow> c \<noteq> CHR '' ''"
proof -
  from assms obtain piece where p: "piece \<in> set (split_on (\<lambda>c. c = CHR '' '') s)"
    and t: "t = trim piece" and ne: "t \<noteq> []"
    by (auto simp: lex_def)
  show "t \<noteq> []" by (rule ne)
  show "trim t = t" by (simp add: t trim_idem)
  fix c assume "c \<in> set t"
  then have "c \<in> set piece" using trim_subset t by blast
  then show "c \<noteq> CHR '' ''" using split_on_pieces [OF p] by blast
qed




text \<open>
  Claim C9. Lexing is idempotent: joining the tokens of any input with single spaces
  and lexing the result gives the same tokens.
\<close>

theorem lex_idempotent: "lex (join '' '' (lex s)) = lex s"
proof (cases "lex s = []")
  case True
  then show ?thesis by (simp add: lex_def trim_def)
next
  case False
  have "split_on (\<lambda>c. c = CHR '' '') (join '' '' (lex s)) = lex s"
    by (rule join_split) (use False lex_tokens(3) in auto)
  moreover have "map trim (lex s) = lex s"
    by (rule map_idI) (rule lex_tokens(2))
  moreover have "filter (\<lambda>t. length t > 0) (lex s) = lex s"
    using lex_tokens(1) by (auto intro: filter_True)
  ultimately show ?thesis by (simp add: lex_def [of "join '' '' (lex s)"])
qed

section \<open>Properties of the number type\<close>

lemma bitlen_pos: "0 < x \<Longrightarrow> 1 \<le> bitlen x"
  by (auto simp: bitlen_alt_def)

lemma ilog2_lower:
  assumes "0 < a"
  shows "2 powi (ilog2 a) \<le> a"
proof -
  obtain n d where q: "quotient_of a = (n, d)" by (cases "quotient_of a")
  have d: "0 < d" using q by (rule quotient_of_denom_pos)
  have a: "a = of_int n / of_int d" using q by (rule quotient_of_div)
  have n: "0 < n" using assms d a by (simp add: zero_less_divide_iff)
  let ?k = "bitlen n - bitlen d"
  show ?thesis
  proof (cases "2 powi ?k \<le> a")
    case True
    then show ?thesis by (simp add: ilog2_def q)
  next
    case False
    have bn: "1 \<le> bitlen n" and bd: "1 \<le> bitlen d"
      using n d by (auto intro: bitlen_pos)
    have "(2::int) ^ nat (bitlen n - 1) \<le> n" using bitlen_bounds [OF n] by simp
    then have "(of_int ((2::int) ^ nat (bitlen n - 1)) :: rat) \<le> of_int n"
      by (simp only: of_int_le_iff)
    then have ln: "(2::rat) powi (bitlen n - 1) \<le> of_int n"
      using bn by (simp add: power_int_def)
    have "d < (2::int) ^ nat (bitlen d)" using bitlen_bounds [OF d] by simp
    then have "(of_int d :: rat) < of_int ((2::int) ^ nat (bitlen d))"
      by (simp only: of_int_less_iff)
    then have ud: "(of_int d :: rat) < 2 powi (bitlen d)"
      using bd by (simp add: power_int_def)
    have "(2::rat) powi (?k - 1) = 2 powi (bitlen n - 1) / 2 powi (bitlen d)"
      by (simp add: power_int_diff)
    also have "\<dots> \<le> of_int n / 2 powi (bitlen d)"
      using ln by (simp add: divide_right_mono)
    also have "\<dots> \<le> of_int n / of_int d"
      using ud d n by (simp add: frac_le)
    finally have "(2::rat) powi (?k - 1) \<le> a" by (simp add: a)
    then show ?thesis using False by (simp add: ilog2_def q)
  qed
qed

lemma round_half_even_of_int: "round_half_even (of_int z) = z"
  by (simp add: round_half_even_def)

lemma round_half_even_error: "\<bar>of_int (round_half_even q) - q\<bar> \<le> 1 / 2"
proof -
  have "of_int \<lfloor>q\<rfloor> \<le> q" "q < of_int \<lfloor>q\<rfloor> + 1" by linarith+
  then show ?thesis by (auto simp: round_half_even_def Let_def)
qed

text \<open>
  A value with at most 53 significant bits and an exponent in the range of binary64 is
  a double: rounding leaves it as it is.
\<close>

lemma to_double_exact:
  assumes m: "0 < m" "m < 2 ^ 53" and e: "- 1074 \<le> e" "e \<le> 971"
    and a: "a = of_int m * 2 powi e"
  shows "to_double neg a = Finite neg a"
proof -
  define e' where "e' = max (ilog2 a - 52) (- 1074)"
  have pos: "0 < a" using m by (simp add: a)
  have "(of_int m :: rat) < of_int (2 ^ 53)" using m(2) by (simp only: of_int_less_iff)
  then have m53: "(of_int m :: rat) < 2 powi 53" by simp
  have "a < 2 powi 53 * 2 powi e" using m53 by (simp add: a)
  also have "\<dots> = (2::rat) powi (53 + e)" by (simp add: power_int_add)
  finally have ub: "a < (2::rat) powi (53 + e)" .
  have "2 powi (ilog2 a) \<le> a" using pos by (rule ilog2_lower)
  then have lt: "(2::rat) powi (ilog2 a) < 2 powi (53 + e)" using ub by (rule le_less_trans)
  have "ilog2 a < 53 + e"
  proof (rule ccontr)
    assume "\<not> ilog2 a < 53 + e"
    then have "(2::rat) powi (53 + e) \<le> 2 powi (ilog2 a)"
      by (intro power_int_increasing) auto
    with lt show False by simp
  qed
  then have le: "e' \<le> e" using e by (simp add: e'_def)
  define d where "d = nat (e - e')"
  have ed: "e = e' + int d" using le by (simp add: d_def)
  have "(2::rat) powi e = 2 powi (e' + int d)" using ed by simp
  also have "\<dots> = 2 powi e' * 2 powi (int d)" by (rule power_int_add) simp
  finally have pe: "(2::rat) powi e = 2 powi e' * 2 ^ d" by (simp only: power_int_of_nat)
  have q: "a / 2 powi e' = of_int (m * 2 ^ d)" by (simp add: a pe)
  have "of_int (round_half_even (a / 2 powi e')) * 2 powi e' = of_int (m * 2 ^ d) * 2 powi e'"
    by (simp only: q round_half_even_of_int)
  also have "\<dots> = a" by (simp add: a pe)
  finally have v: "of_int (round_half_even (a / 2 powi e')) * 2 powi e' = a" .
  have "53 + e \<le> 1024" using e by simp
  then have "(2::rat) powi (53 + e) \<le> 2 powi 1024"
    by (rule power_int_increasing) simp
  with ub have "a < (2::rat) powi 1024" by (rule less_le_trans)
  then have big: "\<not> (2::rat) powi 1024 \<le> a" by (simp only: not_le)
  have nz: "a \<noteq> 0" using pos by simp
  show ?thesis unfolding to_double_def Let_def e'_def [symmetric] v
    using nz big by (simp only: if_False)
qed

text \<open>
  Rounding moves a positive value by at most the \<open>2 powi 53\<close>-th part of it, or by
  \<open>2 powi (- 1075)\<close> among the subnormal values.
\<close>

lemma to_double_error:
  assumes pos: "0 < a" and fin: "to_double neg a = Finite u v"
  shows "\<bar>v - a\<bar> \<le> max (a * 2 powi (- 53)) (2 powi (- 1075))"
proof -
  define e where "e = max (ilog2 a - 52) (- 1074)"
  define m where "m = round_half_even (a / 2 powi e)"
  have nz: "a \<noteq> 0" using pos by simp
  have v: "v = of_int m * 2 powi e"
    using fin nz unfolding to_double_def Let_def e_def [symmetric] m_def [symmetric]
    by (simp split: if_splits del: power_int_numeral)
  have p: "(0::rat) < 2 powi e" by simp
  have "v - a = (of_int m - a / 2 powi e) * 2 powi e"
    using p by (simp add: v algebra_simps)
  then have "\<bar>v - a\<bar> = \<bar>of_int m - a / 2 powi e\<bar> * 2 powi e"
    using p by (simp add: abs_mult)
  also have "\<dots> \<le> 1 / 2 * 2 powi e"
    using round_half_even_error [of "a / 2 powi e"] p
    unfolding m_def by (intro mult_right_mono) simp_all
  also have "\<dots> = 2 powi (e - 1)" by (simp add: power_int_diff)
  finally have bound: "\<bar>v - a\<bar> \<le> 2 powi (e - 1)" .
  show ?thesis
  proof (cases "- 1074 \<le> ilog2 a - 52")
    case True
    then have "e - 1 = ilog2 a + (- 53)" by (simp add: e_def)
    have "(2::rat) powi (ilog2 a + (- 53)) = 2 powi (ilog2 a) * 2 powi (- 53)"
      by (rule power_int_add) simp
    then have "(2::rat) powi (e - 1) = 2 powi (ilog2 a) * 2 powi (- 53)"
      by (simp only: \<open>e - 1 = ilog2 a + (- 53)\<close>)
    also have "\<dots> \<le> a * 2 powi (- 53)"
      using ilog2_lower [OF pos] by (intro mult_right_mono) simp_all
    finally have "\<bar>v - a\<bar> \<le> a * 2 powi (- 53)" using bound by (rule order_trans [rotated])
    then show ?thesis by (rule max.coboundedI1)
  next
    case False
    then have "e - 1 = - 1075" by (simp add: e_def)
    with bound have "\<bar>v - a\<bar> \<le> 2 powi (- 1075)" by (simp only:)
    then show ?thesis by (rule max.coboundedI2)
  qed
qed

lemma to_double_zero [simp]: "to_double neg 0 = Finite neg 0"
  by (simp add: to_double_def)

lemma to_double_nat:
  assumes "n < 2 ^ 53"
  shows "to_double neg (of_nat n) = Finite neg (of_nat n)"
proof (cases "n = 0")
  case True
  then show ?thesis by simp
next
  case False
  have "int n < 2 ^ 53"
    using assms by (simp add: of_nat_less_iff [of n "2 ^ 53", where ?'a = int, simplified])
  then show ?thesis
    using False by (intro to_double_exact [where m = "int n" and e = 0]) simp_all
qed

lemma to_double_numeral [simp]:
  "numeral k < (2::nat) ^ 53 \<Longrightarrow> to_double neg (numeral k) = Finite neg (numeral k)"
  using to_double_nat [of "numeral k" neg] by simp

lemma to_double_one [simp]: "to_double neg 1 = Finite neg 1"
  using to_double_nat [of 1 neg] by simp

text \<open>The four operations on the numbers that hold two rationals.\<close>

lemma double_nonzero: "double r \<Longrightarrow> r \<noteq> 0"
  by (auto simp: double_def)

lemma to_double_double: "double r \<Longrightarrow> to_double neg \<bar>r\<bar> = Finite neg \<bar>r\<bar>"
  unfolding double_def using to_double_exact by blast

lemma double_numeral: "numeral k < (2::int) ^ 53 \<Longrightarrow> double (numeral k)"
  unfolding double_def
  by (rule exI [of _ "numeral k"], rule exI [of _ 0]) simp

lemma signed_abs: "signed (p < 0) \<bar>p\<bar> = p"
  by (simp add: signed_def)

lemma js_add_the_number:
  "js_add (the_number p) (the_number q) =
     (if p + q = 0 then Finite False 0 else to_double (p + q < 0) \<bar>p + q\<bar>)"
  by (auto simp: the_number_def signed_abs Let_def)

lemma js_sub_the_number:
  "js_sub (the_number p) (the_number q) =
     (if p - q = 0 then Finite False 0 else to_double (p - q < 0) \<bar>p - q\<bar>)"
proof -
  have "signed (\<not> q < 0) \<bar>q\<bar> = - q" by (simp add: signed_def)
  then show ?thesis
    by (auto simp: the_number_def js_sub_def signed_abs Let_def)
qed

lemma js_mul_the_number:
  assumes "p * q \<noteq> 0"
  shows "js_mul (the_number p) (the_number q) = to_double (p * q < 0) \<bar>p * q\<bar>"
proof -
  have nz: "p \<noteq> 0" "q \<noteq> 0" using assms by auto
  have sgn: "((p < 0) = (\<not> q < 0)) = (p * q < 0)"
    using nz by (cases "p < 0"; cases "q < 0") (auto simp: mult_less_0_iff not_less)
  show ?thesis by (simp add: the_number_def abs_mult sgn)
qed

lemma js_div_the_number:
  assumes "p / q \<noteq> 0"
  shows "js_div (the_number p) (the_number q) = to_double (p / q < 0) \<bar>p / q\<bar>"
proof -
  have nz: "p \<noteq> 0" "q \<noteq> 0" using assms by auto
  have sgn: "((p < 0) = (\<not> q < 0)) = (p / q < 0)"
    using nz by (cases "p < 0"; cases "q < 0") (auto simp: divide_less_0_iff not_less)
  show ?thesis using nz by (simp add: the_number_def sgn)
qed

text \<open>The rounded value of a positive magnitude is next to it.\<close>

lemma rounding_error:
  assumes pos: "0 < a"
  shows "\<bar>of_int (round_half_even (a / 2 powi max (ilog2 a - 52) (- 1074)))
           * 2 powi max (ilog2 a - 52) (- 1074) - a\<bar>
         \<le> max (a * 2 powi (- 53)) (2 powi (- 1075))"
proof -
  define e where "e = max (ilog2 a - 52) (- 1074)"
  define m where "m = round_half_even (a / 2 powi e)"
  define v where "v = of_int m * (2::rat) powi e"
  have p: "(0::rat) < 2 powi e" by simp
  have "v - a = (of_int m - a / 2 powi e) * 2 powi e"
    using p by (simp add: v_def algebra_simps)
  then have "\<bar>v - a\<bar> = \<bar>of_int m - a / 2 powi e\<bar> * 2 powi e"
    using p by (simp add: abs_mult)
  also have "\<dots> \<le> 1 / 2 * 2 powi e"
    using round_half_even_error [of "a / 2 powi e"] p
    unfolding m_def by (intro mult_right_mono) simp_all
  also have "\<dots> = 2 powi (e - 1)" by (simp add: power_int_diff)
  finally have bound: "\<bar>v - a\<bar> \<le> 2 powi (e - 1)" .
  have "\<bar>v - a\<bar> \<le> max (a * 2 powi (- 53)) (2 powi (- 1075))"
  proof (cases "- 1074 \<le> ilog2 a - 52")
    case True
    then have "e - 1 = ilog2 a + (- 53)" by (simp add: e_def)
    have "(2::rat) powi (ilog2 a + (- 53)) = 2 powi (ilog2 a) * 2 powi (- 53)"
      by (rule power_int_add) simp
    then have "(2::rat) powi (e - 1) = 2 powi (ilog2 a) * 2 powi (- 53)"
      by (simp only: \<open>e - 1 = ilog2 a + (- 53)\<close>)
    also have "\<dots> \<le> a * 2 powi (- 53)"
      using ilog2_lower [OF pos] by (intro mult_right_mono) simp_all
    finally have "\<bar>v - a\<bar> \<le> a * 2 powi (- 53)" using bound by (rule order_trans [rotated])
    then show ?thesis by (rule max.coboundedI1)
  next
    case False
    then have "e - 1 = - 1075" by (simp add: e_def)
    with bound have "\<bar>v - a\<bar> \<le> 2 powi (- 1075)" by (simp only:)
    then show ?thesis by (rule max.coboundedI2)
  qed
  then show ?thesis unfolding v_def m_def e_def .
qed

lemma to_double_rounds:
  assumes "r \<noteq> 0"
  shows "rounds_to r (to_double (r < 0) \<bar>r\<bar>)"
proof -
  define a where "a = \<bar>r\<bar>"
  define v where "v = of_int (round_half_even (a / 2 powi max (ilog2 a - 52) (- 1074)))
           * (2::rat) powi max (ilog2 a - 52) (- 1074)"
  have pos: "0 < a" using assms by (simp add: a_def)
  have err: "\<bar>v - a\<bar> \<le> max (a * 2 powi (- 53)) (2 powi (- 1075))"
    unfolding v_def using pos by (rule rounding_error)
  have td: "to_double (r < 0) a = (if 2 powi 1024 \<le> v then Infinity (r < 0) else Finite (r < 0) v)"
    using pos unfolding to_double_def Let_def v_def by (simp only: less_irrefl if_False split: if_splits) auto
  show ?thesis
  proof (cases "(2::rat) powi 1024 \<le> v")
    case True
    have "(2::rat) powi 1023 \<le> a"
    proof (rule ccontr)
      assume "\<not> (2::rat) powi 1023 \<le> a"
      then have lt: "a < (2::rat) powi 1023" by simp
      have "a * 2 powi (- 53) \<le> a * 1"
        using pos by (intro mult_left_mono) (simp_all add: power_int_le_one)
      then have "a * 2 powi (- 53) < (2::rat) powi 1023" using lt by simp
      moreover have "(2::rat) powi (- 1075) \<le> 2 powi 1023"
        by (rule power_int_increasing) simp_all
      ultimately have "max (a * 2 powi (- 53)) (2 powi (- 1075)) \<le> (2::rat) powi 1023"
        by (simp only: max.bounded_iff less_imp_le simp_thms)
      then have "v \<le> a + (2::rat) powi 1023" using err by linarith
      then have "v < (2::rat) powi 1023 + 2 powi 1023" using lt by linarith
      also have "\<dots> = (2::rat) powi 1024"
        by simp
      finally show False using True by simp
    qed
    then show ?thesis
      using True by (simp add: rounds_to_def td a_def [symmetric] del: power_int_numeral)
  next
    case False
    then show ?thesis
      using err by (simp add: rounds_to_def td a_def [symmetric] del: power_int_numeral power_int_numeral_neg_numeral)
  qed
qed

lemma shortest_numeral:
  "shortest x n0 k (numeral f) =
     (case candidates x n0 k of (s, n) # _ \<Rightarrow> (s, n, k)
      | [] \<Rightarrow> shortest x n0 (Suc k) (pred_numeral f))"
  by (simp add: numeral_eq_Suc)

text \<open>The equations that compute the functions above on given inputs.\<close>

lemmas lex_eval = lex_def trim_def is_ws_def

lemmas parseInt_eval = parseInt_def is_ws_def digit_value_def Let_def

lemmas parse_eval =
  parseExpression.simps parseOp.simps parseOp_while.simps parseNum_def consume_def peek_def
  test_digit_def truthy_def ToString_def is_digit_def parse_def

lemmas number_to_string_eval =
  positive_to_string_def ilog10_def candidates_def decimal_def Let_def compute_floorlog
  shortest_numeral

lemmas evaluate_lookup =
  get_property_def evaluate_operationMap_def reduce_def reduce_seed_def ToString_def

lemmas evaluate_eval = evaluate_lookup js_sub_def signed_def

lemmas compile_eval =
  get_property_def compile_operationMap_def property_text_def ToString_def object_prototype_def

section \<open>Properties of the parser\<close>

lemma test_digit_None: "\<not> test_digit None"
  by (simp add: test_digit_def ToString_def is_digit_def)

lemma test_digit_peek:
  "test_digit (peek tokens count) \<Longrightarrow>
     count < length tokens \<and> peek tokens count = Some (tokens ! count)"
  by (cases "count < length tokens") (simp_all add: peek_def test_digit_None)

lemma truthy_peek:
  "truthy (peek tokens count) \<Longrightarrow> count < length tokens"
  by (cases "count < length tokens") (simp_all add: peek_def truthy_def)

lemma parseExpression_past_end:
  "length tokens \<le> count \<Longrightarrow>
     parseExpression tokens count = (OperationParser None [], Suc count)"
  by (simp add: parseExpression.simps parseOp.simps parseOp_while.simps [of tokens "Suc count"]
        peek_def consume_def test_digit_None truthy_def)

lemma parseOp_node:
  "\<exists>val expression. fst (parseOp tokens count) = OperationParser val expression"
  by (simp add: parseOp.simps [of tokens count] consume_def split: prod.splits)

text \<open>Inside the token sequence every operator that is read is a token.\<close>

lemma parse_operators_defined:
  "count < length tokens \<longrightarrow> None \<notin> set (operators (fst (parseExpression tokens count)))"
  "count < length tokens \<longrightarrow> None \<notin> set (operators (fst (parseOp tokens count)))"
  "(\<forall>e\<in>set expression. None \<notin> set (operators e)) \<longrightarrow>
     (\<forall>e\<in>set (fst (parseOp_while tokens count expression)). None \<notin> set (operators e))"
proof (induction tokens count and tokens count and tokens count expression
    rule: parseExpression_parseOp_parseOp_while.induct)
  case (1 tokens count)
  then show ?case
    by (simp add: parseExpression.simps [of tokens count] parseNum_def consume_def)
next
  case (2 tokens count)
  show ?case
  proof
    assume lt: "count < length tokens"
    obtain ex c where w: "parseOp_while tokens (Suc count) [] = (ex, c)"
      by (cases "parseOp_while tokens (Suc count) []")
    have "\<forall>e\<in>set ex. None \<notin> set (operators e)"
      using 2 [of "peek tokens count" "Suc count"] w by (simp add: consume_def)
    then show "None \<notin> set (operators (fst (parseOp tokens count)))"
      using lt by (simp add: parseOp.simps [of tokens count] consume_def w peek_def)
  qed
next
  case (3 tokens count expression)
  show ?case
  proof (cases "truthy (peek tokens count)")
    case True
    obtain e c where pe: "parseExpression tokens count = (e, c)"
      by (cases "parseExpression tokens count")
    have e: "None \<notin> set (operators e)"
      using 3(1) [OF True] truthy_peek [OF True] pe by simp
    show ?thesis
      using 3(2) [OF True pe [symmetric]] e
      by (simp add: parseOp_while.simps [of tokens count] True pe)
  next
    case False
    then show ?thesis by (simp add: parseOp_while.simps [of tokens count])
  qed
qed

text \<open>Every number in the tree is what \<^verbatim>\<open>parseInt\<close> makes of a token with a digit in it.\<close>

lemma parse_numbers:
  "\<forall>v\<in>set (numbers (fst (parseExpression tokens count))).
     \<exists>t\<in>set tokens. test_digit (Some t) \<and> v = parseInt t"
  "\<forall>v\<in>set (numbers (fst (parseOp tokens count))).
     \<exists>t\<in>set tokens. test_digit (Some t) \<and> v = parseInt t"
  "(\<forall>e\<in>set expression. \<forall>v\<in>set (numbers e).
       \<exists>t\<in>set tokens. test_digit (Some t) \<and> v = parseInt t) \<longrightarrow>
   (\<forall>e\<in>set (fst (parseOp_while tokens count expression)). \<forall>v\<in>set (numbers e).
       \<exists>t\<in>set tokens. test_digit (Some t) \<and> v = parseInt t)"
proof (induction tokens count and tokens count and tokens count expression
    rule: parseExpression_parseOp_parseOp_while.induct)
  case (1 tokens count)
  show ?case
  proof (cases "test_digit (peek tokens count)")
    case True
    from test_digit_peek [OF True] have lt: "count < length tokens"
      and pk: "peek tokens count = Some (tokens ! count)" by simp_all
    have "tokens ! count \<in> set tokens" using lt by simp
    moreover have "test_digit (Some (tokens ! count))" using True pk by simp
    ultimately show ?thesis
      by (auto simp: parseExpression.simps [of tokens count] True parseNum_def consume_def pk
            ToString_def)
  next
    case False
    then show ?thesis using 1 by (simp add: parseExpression.simps [of tokens count])
  qed
next
  case (2 tokens count)
  obtain ex c where w: "parseOp_while tokens (Suc count) [] = (ex, c)"
    by (cases "parseOp_while tokens (Suc count) []")
  have "\<forall>e\<in>set ex. \<forall>v\<in>set (numbers e). \<exists>t\<in>set tokens. test_digit (Some t) \<and> v = parseInt t"
    using 2 [of "peek tokens count" "Suc count"] w by (simp add: consume_def)
  then show ?case
    by (simp add: parseOp.simps [of tokens count] consume_def w)
next
  case (3 tokens count expression)
  show ?case
  proof (cases "truthy (peek tokens count)")
    case True
    obtain e c where pe: "parseExpression tokens count = (e, c)"
      by (cases "parseExpression tokens count")
    have e: "\<forall>v\<in>set (numbers e). \<exists>t\<in>set tokens. test_digit (Some t) \<and> v = parseInt t"
      using 3(1) [OF True] pe by simp
    show ?thesis
      using 3(2) [OF True pe [symmetric]] e
      by (simp add: parseOp_while.simps [of tokens count] True pe)
  next
    case False
    then show ?thesis by (simp add: parseOp_while.simps [of tokens count])
  qed
qed

text \<open>The loop only adds operands.\<close>

lemma parseOp_while_grows:
  "True" "True"
  "length expression \<le> length (fst (parseOp_while tokens count expression))"
proof (induction tokens count and tokens count and tokens count expression
    rule: parseExpression_parseOp_parseOp_while.induct)
  case (3 tokens count expression)
  show ?case
  proof (cases "truthy (peek tokens count)")
    case True
    obtain e c where pe: "parseExpression tokens count = (e, c)"
      by (cases "parseExpression tokens count")
    show ?thesis
      using 3(2) [OF True pe [symmetric]]
      by (simp add: parseOp_while.simps [of tokens count] True pe)
  next
    case False
    then show ?thesis by (simp add: parseOp_while.simps [of tokens count])
  qed
qed simp_all

lemma is_digit_facts:
  assumes "is_digit c"
  shows "\<not> is_ws c" "c \<noteq> CHR ''+''" "c \<noteq> CHR ''-''" "c \<noteq> CHR ''x''" "c \<noteq> CHR ''X''"
    "digit_value 10 c = Some (of_char c - 48)"
  using assms by (auto simp: is_digit_def is_ws_def digit_value_def Let_def)

lemma parseInt_digits:
  assumes ne: "t \<noteq> []" and dig: "\<forall>c\<in>set t. is_digit c" and small: "digits_value t < 2 ^ 53"
  shows "parseInt t = Finite False (of_nat (digits_value t))"
proof -
  obtain a rest where t: "t = a # rest" using ne by (cases t) auto
  have a: "is_digit a" using dig t by simp
  have S: "dropWhile is_ws t = t" using is_digit_facts(1) [OF a] by (simp add: t)
  have hd: "hd t \<noteq> CHR ''+''" "hd t \<noteq> CHR ''-''"
    using is_digit_facts(2,3) [OF a] by (simp_all add: t)
  have nohex: "take 2 t \<noteq> ''0x''" "take 2 t \<noteq> ''0X''"
  proof -
    show "take 2 t \<noteq> ''0x''"
    proof (cases rest)
      case Nil
      then show ?thesis by (simp add: t)
    next
      case (Cons b rest')
      then have "is_digit b" using dig t by simp
      then show ?thesis using is_digit_facts(4) [of b] by (auto simp: t Cons)
    qed
    show "take 2 t \<noteq> ''0X''"
    proof (cases rest)
      case Nil
      then show ?thesis by (simp add: t)
    next
      case (Cons b rest')
      then have "is_digit b" using dig t by simp
      then show ?thesis using is_digit_facts(5) [of b] by (auto simp: t Cons)
    qed
  qed
  have Z: "takeWhile (\<lambda>c. digit_value 10 c \<noteq> None) t = t"
    using dig is_digit_facts(6) by (simp add: takeWhile_eq_all_conv)
  have F: "foldl (\<lambda>a c. case digit_value 10 c of Some d \<Rightarrow> a * 10 + d | None \<Rightarrow> a) 0 t
         = digits_value t"
    unfolding digits_value_def
    by (rule foldl_cong) (use dig is_digit_facts(6) in auto)
  show ?thesis
    using ne hd nohex small
    by (simp add: parseInt_def Let_def S Z F to_double_nat del: not_None_eq)
qed

text \<open>
  Claim C3, as amended. \<^verbatim>\<open>parse\<close> signals no failure. When \<^verbatim>\<open>parseExpression\<close> starts
  with the cursor at or past the end of the token sequence, which at top level is the
  case of the empty sequence, the token read is \<^verbatim>\<open>undefined\<close>: the result is an
  operation node whose operator is \<^verbatim>\<open>undefined\<close> and whose operand list is empty, and
  the cursor has moved one further. For a token sequence that is not empty, no operator
  of the returned tree is \<^verbatim>\<open>undefined\<close>: the cursor is read past the end in no other
  case.
\<close>

theorem parse_past_end:
  "(length tokens \<le> count \<longrightarrow>
      parseExpression tokens count = (OperationParser None [], Suc count)) \<and>
   (tokens \<noteq> [] \<longrightarrow> None \<notin> set (operators (parse tokens)))"
  using parseExpression_past_end [of tokens count] parse_operators_defined(1) [of 0 tokens]
  by (simp add: parse_def)

text \<open>The theorem at the empty token sequence and at the tokens of \<^verbatim>\<open>"sum 1"\<close>.\<close>

theorem parse_past_end_witness:
  "parseExpression [] 0 = (OperationParser None [], Suc 0) \<and>
   parse [''sum'', ''1''] = OperationParser (Some ''sum'') [NumberParser (Finite False 1)] \<and>
   None \<notin> set (operators (parse [''sum'', ''1'']))"
proof -
  have "parse [''sum'', ''1''] = OperationParser (Some ''sum'') [NumberParser (Finite False 1)]"
    by (simp add: parse_eval parseInt_eval)
  then show ?thesis
    using parse_past_end [of "[]" 0] parse_past_end [of "[''sum'', ''1'']" 0] by simp
qed

text \<open>
  Claim C3 as stated fails: for the empty token sequence, here the tokens of the empty
  input, \<^verbatim>\<open>parse\<close> returns a node.
\<close>

theorem parse_empty_counterexample:
  "parse (lex '''') = OperationParser None []"
  by (simp add: lex_eval parse_eval)

lemma test_digit_peek_iff:
  "test_digit (peek tokens count) \<longleftrightarrow>
     count < length tokens \<and> (\<exists>c\<in>set (tokens ! count). is_digit c)"
  by (cases "count < length tokens")
    (simp_all add: peek_def test_digit_None, simp add: test_digit_def ToString_def)

lemma parseInt_no_number:
  assumes "t \<noteq> []" "\<not> is_ws (hd t)" "hd t \<noteq> CHR ''+''" "hd t \<noteq> CHR ''-''" "\<not> is_digit (hd t)"
  shows "parseInt t = NaN"
proof -
  obtain a rest where t: "t = a # rest" using assms(1) by (cases t) auto
  have a: "\<not> is_ws a" "a \<noteq> CHR ''+''" "a \<noteq> CHR ''-''" "\<not> is_digit a"
    using assms by (simp_all add: t)
  have z: "a \<noteq> CHR ''0''" using a(4) by (auto simp: is_digit_def)
  have dv: "digit_value 10 a = None"
    using a(4) by (auto simp: digit_value_def is_digit_def Let_def)
  show ?thesis
    using a z dv by (cases rest) (simp_all add: parseInt_def Let_def t del: not_None_eq)
qed

text \<open>
  Claim C4, as amended. \<^verbatim>\<open>parseExpression\<close> calls \<^verbatim>\<open>parseNum\<close> exactly when there is a
  next token and it has a decimal digit somewhere (the pattern \<^verbatim>\<open>/\d/\<close> is not
  anchored), and \<^verbatim>\<open>parseOp\<close> otherwise; it returns a number node in the first case and
  an operation node in the second. Every number in a tree returned by
  \<^verbatim>\<open>parse\<close> is what \<^verbatim>\<open>parseInt\<close> makes of some token with a decimal digit in it. For a
  token made of decimal digits only that denotes an integer below \<open>2 ^ 53\<close>, this is
  that integer. For a token whose first character is neither white space, nor a sign,
  nor a decimal digit, it is \<open>NaN\<close>.
\<close>

theorem parseExpression_dispatch:
  "((\<exists>v. fst (parseExpression tokens count) = NumberParser v) \<longleftrightarrow>
      count < length tokens \<and> (\<exists>c\<in>set (tokens ! count). is_digit c)) \<and>
   (\<forall>v\<in>set (numbers (parse tokens)).
      \<exists>t\<in>set tokens. (\<exists>c\<in>set t. is_digit c) \<and> v = parseInt t) \<and>
   (t \<noteq> [] \<and> (\<forall>c\<in>set t. is_digit c) \<and> digits_value t < 2 ^ 53 \<longrightarrow>
      parseInt t = Finite False (of_nat (digits_value t))) \<and>
   (u \<noteq> [] \<and> \<not> is_ws (hd u) \<and> hd u \<noteq> CHR ''+'' \<and> hd u \<noteq> CHR ''-'' \<and> \<not> is_digit (hd u) \<longrightarrow>
      parseInt u = NaN) \<and>
   parseExpression tokens count =
     (if count < length tokens \<and> (\<exists>c\<in>set (tokens ! count). is_digit c)
      then parseNum tokens count else parseOp tokens count)"
proof (intro conjI impI)
  show "(\<exists>v. fst (parseExpression tokens count) = NumberParser v) \<longleftrightarrow>
      count < length tokens \<and> (\<exists>c\<in>set (tokens ! count). is_digit c)"
  proof (cases "test_digit (peek tokens count)")
    case True
    then show ?thesis
      using test_digit_peek [OF True]
      by (auto simp: parseExpression.simps [of tokens count] parseNum_def consume_def
            test_digit_def ToString_def)
  next
    case False
    then have "fst (parseExpression tokens count) = fst (parseOp tokens count)"
      by (simp add: parseExpression.simps [of tokens count])
    then have "\<not> (\<exists>v. fst (parseExpression tokens count) = NumberParser v)"
      using parseOp_node [of tokens count] by auto
    moreover have "\<not> (count < length tokens \<and> (\<exists>c\<in>set (tokens ! count). is_digit c))"
      using False by (auto simp: peek_def test_digit_def ToString_def)
    ultimately show ?thesis by blast
  qed
next
  show "\<forall>v\<in>set (numbers (parse tokens)).
      \<exists>t\<in>set tokens. (\<exists>c\<in>set t. is_digit c) \<and> v = parseInt t"
    using parse_numbers(1) [of tokens 0] by (simp add: parse_def test_digit_def ToString_def)
next
  assume "t \<noteq> [] \<and> (\<forall>c\<in>set t. is_digit c) \<and> digits_value t < 2 ^ 53"
  then show "parseInt t = Finite False (of_nat (digits_value t))"
    by (intro parseInt_digits) simp_all
next
  assume "u \<noteq> [] \<and> \<not> is_ws (hd u) \<and> hd u \<noteq> CHR ''+'' \<and> hd u \<noteq> CHR ''-'' \<and>
    \<not> is_digit (hd u)"
  then show "parseInt u = NaN"
    by (intro parseInt_no_number) simp_all
next
  show "parseExpression tokens count =
     (if count < length tokens \<and> (\<exists>c\<in>set (tokens ! count). is_digit c)
      then parseNum tokens count else parseOp tokens count)"
    by (simp only: parseExpression.simps [of tokens count] test_digit_peek_iff)
qed

text \<open>
  The theorem at the tokens of \<^verbatim>\<open>"sub 2 sum 1 3 4"\<close>, whose numbers are those of the four
  digit tokens, at the token \<^verbatim>\<open>42\<close> and at the token \<^verbatim>\<open>a1\<close>.
\<close>

theorem parseExpression_dispatch_witness:
  "fst (parseExpression [''sub'', ''2'', ''sum'', ''1'', ''3'', ''4''] 1)
     = NumberParser (Finite False 2) \<and>
   numbers (parse [''sub'', ''2'', ''sum'', ''1'', ''3'', ''4''])
     = [Finite False 2, Finite False 1, Finite False 3, Finite False 4] \<and>
   digits_value ''42'' = 42 \<and>
   parseInt ''42'' = Finite False 42 \<and>
   parseInt ''a1'' = NaN"
proof -
  note t = parseExpression_dispatch
    [of "[''sub'', ''2'', ''sum'', ''1'', ''3'', ''4'']" 1 "''42''" "''a1''"]
  have "parseInt ''42'' = Finite False (of_nat (digits_value ''42''))"
    using t by (simp add: digits_value_def is_digit_def)
  moreover have "parseInt ''a1'' = NaN"
    using t by (simp add: is_digit_def is_ws_def)
  ultimately show ?thesis
    by (simp add: digits_value_def parse_eval parseInt_eval)
qed

text \<open>
  Claim C4 as stated fails on tokens that have a digit and are not made of digits:
  \<^verbatim>\<open>a1\<close> goes to \<^verbatim>\<open>parseNum\<close> and gives the number \<open>NaN\<close>, and \<^verbatim>\<open>1a\<close> goes to
  \<^verbatim>\<open>parseNum\<close> and gives 1.
\<close>

theorem parse_digit_counterexample:
  "parse [''a1''] = NumberParser NaN \<and> parse [''1a''] = NumberParser (Finite False 1)"
  by (simp add: parse_eval parseInt_eval)

text \<open>
  Claim C5, as amended. The operand list of an operation node built by \<^verbatim>\<open>parseOp\<close> is
  not empty exactly when the operator token is followed by a token that is not the
  empty string. An operator that is the last token gives an operation node with an
  empty operand list.
\<close>

theorem parseOp_operands:
  "parseOp tokens count = (OperationParser val expression, count') \<Longrightarrow>
     (expression \<noteq> [] \<longleftrightarrow> Suc count < length tokens \<and> tokens ! Suc count \<noteq> [])"
proof -
  assume h: "parseOp tokens count = (OperationParser val expression, count')"
  then have w: "parseOp_while tokens (Suc count) [] = (expression, count')"
    by (auto simp: parseOp.simps [of tokens count] consume_def split: prod.splits)
  have next_token: "truthy (peek tokens (Suc count)) \<longleftrightarrow>
      Suc count < length tokens \<and> tokens ! Suc count \<noteq> []"
    by (simp add: truthy_def peek_def)
  show ?thesis
  proof (cases "truthy (peek tokens (Suc count))")
    case True
    obtain e c where pe: "parseExpression tokens (Suc count) = (e, c)"
      by (cases "parseExpression tokens (Suc count)")
    have step: "parseOp_while tokens (Suc count) [] = parseOp_while tokens c [e]"
      by (simp add: parseOp_while.simps [of tokens "Suc count"] True pe)
    have "parseOp_while tokens c [e] = (expression, count')"
      unfolding step [symmetric] by (rule w)
    then have "fst (parseOp_while tokens c [e]) = expression"
      by (simp only: fst_conv)
    then have "length [e] \<le> length expression"
      using parseOp_while_grows(3) [of "[e]" tokens c] by simp
    then show ?thesis using True next_token by auto
  next
    case False
    then have "parseOp_while tokens (Suc count) [] = ([], Suc count)"
      by (simp add: parseOp_while.simps [of tokens "Suc count"])
    then have "expression = []" using w by simp
    then show ?thesis using False next_token by simp
  qed
qed

text \<open>
  The theorem at the tokens \<^verbatim>\<open>sum\<close>, \<^verbatim>\<open>1\<close>: the operator at position 0 is followed by a
  token, and the operand list is not empty.
\<close>

theorem parseOp_operands_witness:
  "parseOp [''sum'', ''1''] 0 = (OperationParser (Some ''sum'') [NumberParser (Finite False 1)], 2) \<and>
   [NumberParser (Finite False 1)] \<noteq> [] \<and>
   Suc 0 < length [''sum'', ''1''] \<and> [''sum'', ''1''] ! Suc 0 \<noteq> []"
proof -
  have p: "parseOp [''sum'', ''1''] 0
      = (OperationParser (Some ''sum'') [NumberParser (Finite False 1)], 2)"
    by (simp add: parse_eval parseInt_eval)
  show ?thesis using p parseOp_operands [OF p] by simp
qed

text \<open>
  Claim C5 as stated fails: the tokens of \<^verbatim>\<open>"sub"\<close> parse, and the operation node has
  no operand.
\<close>

theorem parse_no_operand_counterexample:
  "parse (lex ''sub'') = OperationParser (Some ''sub'') []"
  by (simp add: lex_eval parse_eval)

section \<open>Properties of the evaluator\<close>

lemma sequence_Inr: "sequence (map Inr vs) = Inr vs"
  by (induction vs) simp_all

lemma sequence_values:
  "(\<And>e. e \<in> set es \<Longrightarrow> f e = Inr (g e)) \<Longrightarrow> sequence (map f es) = Inr (map g es)"
proof -
  assume "\<And>e. e \<in> set es \<Longrightarrow> f e = Inr (g e)"
  then have "map f es = map Inr (map g es)" by (simp add: map_idI)
  then show ?thesis by (simp only: sequence_Inr)
qed

lemma sequence_numbers:
  "sequence (map (evaluate proto) (map NumberParser vs)) = Inr vs"
  by (induction vs) simp_all

text \<open>
  Claim C6. On every tree whose operators are among \<^verbatim>\<open>sum\<close>, \<^verbatim>\<open>sub\<close>, \<^verbatim>\<open>div\<close> and \<^verbatim>\<open>mul\<close>
  and whose \<^verbatim>\<open>sub\<close> and \<^verbatim>\<open>div\<close> nodes have an operand, \<^verbatim>\<open>evaluate\<close> returns the number that
  the folds of the specification give. The claim asks in addition that no \<^verbatim>\<open>div\<close> node
  has a zero operand after the first; the theorem holds without that. The operations of
  the folds are the addition, subtraction, multiplication and division of binary64
  numbers: on the numbers that hold two rationals, each gives the number that holds
  their sum, difference, product or quotient when that is a binary64 value, a number
  next to it whenever it is not 0, and a zero when it is 0.
\<close>

theorem evaluate_fold:
  "(recognized ast \<longrightarrow> evaluate proto ast = Inr (fold_eval ast)) \<and>
   (double (p + q) \<longrightarrow> js_add (the_number p) (the_number q) = the_number (p + q)) \<and>
   (double (p - q) \<longrightarrow> js_sub (the_number p) (the_number q) = the_number (p - q)) \<and>
   (double (p * q) \<longrightarrow> js_mul (the_number p) (the_number q) = the_number (p * q)) \<and>
   (double (p / q) \<longrightarrow> js_div (the_number p) (the_number q) = the_number (p / q)) \<and>
   (p + q \<noteq> 0 \<longrightarrow> rounds_to (p + q) (js_add (the_number p) (the_number q))) \<and>
   (p - q \<noteq> 0 \<longrightarrow> rounds_to (p - q) (js_sub (the_number p) (the_number q))) \<and>
   (p * q \<noteq> 0 \<longrightarrow> rounds_to (p * q) (js_mul (the_number p) (the_number q))) \<and>
   (p / q \<noteq> 0 \<longrightarrow> rounds_to (p / q) (js_div (the_number p) (the_number q))) \<and>
   (p + q = 0 \<longrightarrow> js_add (the_number p) (the_number q) = the_number 0) \<and>
   (p - q = 0 \<longrightarrow> js_sub (the_number p) (the_number q) = the_number 0) \<and>
   (p * q = 0 \<longrightarrow> js_mul (the_number p) (the_number q) = Finite ((p < 0) \<noteq> (q < 0)) 0) \<and>
   (p = 0 \<and> q \<noteq> 0 \<longrightarrow> js_div (the_number p) (the_number q) = Finite (q < 0) 0)"
proof (intro conjI impI)
  have folds: "recognized t \<Longrightarrow> evaluate proto t = Inr (fold_eval t)" for t
  proof (induction t)
    case (NumberParser val)
    then show ?case by simp
  next
    case (OperationParser val expression)
    have "evaluate proto e = Inr (fold_eval e)" if "e \<in> set expression" for e
      using OperationParser that by (simp add: list_all_iff)
    then have seq: "sequence (map (evaluate proto) expression) = Inr (map fold_eval expression)"
      by (rule sequence_values)
    have ne: "val \<in> {Some ''sub'', Some ''div''} \<Longrightarrow> map fold_eval expression \<noteq> []"
      using OperationParser.prems by simp
    have "val \<in> {Some ''sum'', Some ''sub'', Some ''div'', Some ''mul''}"
      using OperationParser.prems by simp
    then consider "val = Some ''sum''" | "val = Some ''sub''" | "val = Some ''div''"
      | "val = Some ''mul''" by blast
    then show ?case
    proof cases
      case 1
      then show ?thesis by (simp add: seq evaluate_lookup)
    next
      case 2
      then show ?thesis using ne
        by (cases "map fold_eval expression") (simp_all add: seq evaluate_lookup fold_first_def)
    next
      case 3
      then show ?thesis using ne
        by (cases "map fold_eval expression") (simp_all add: seq evaluate_lookup fold_first_def)
    next
      case 4
      then show ?thesis by (simp add: seq evaluate_lookup)
    qed
  qed
  assume "recognized ast"
  then show "evaluate proto ast = Inr (fold_eval ast)" by (rule folds)
next
  assume d: "double (p + q)"
  have "js_add (the_number p) (the_number q) = to_double (p + q < 0) \<bar>p + q\<bar>"
    using double_nonzero [OF d] by (simp only: js_add_the_number if_False)
  also have "\<dots> = Finite (p + q < 0) \<bar>p + q\<bar>" by (rule to_double_double [OF d])
  finally show "js_add (the_number p) (the_number q) = the_number (p + q)"
    by (simp only: the_number_def)
next
  assume d: "double (p - q)"
  have "js_sub (the_number p) (the_number q) = to_double (p - q < 0) \<bar>p - q\<bar>"
    using double_nonzero [OF d] by (simp only: js_sub_the_number if_False)
  also have "\<dots> = Finite (p - q < 0) \<bar>p - q\<bar>" by (rule to_double_double [OF d])
  finally show "js_sub (the_number p) (the_number q) = the_number (p - q)"
    by (simp only: the_number_def)
next
  assume d: "double (p * q)"
  have "js_mul (the_number p) (the_number q) = to_double (p * q < 0) \<bar>p * q\<bar>"
    using double_nonzero [OF d] by (rule js_mul_the_number)
  also have "\<dots> = Finite (p * q < 0) \<bar>p * q\<bar>" by (rule to_double_double [OF d])
  finally show "js_mul (the_number p) (the_number q) = the_number (p * q)"
    by (simp only: the_number_def)
next
  assume d: "double (p / q)"
  have "js_div (the_number p) (the_number q) = to_double (p / q < 0) \<bar>p / q\<bar>"
    using double_nonzero [OF d] by (rule js_div_the_number)
  also have "\<dots> = Finite (p / q < 0) \<bar>p / q\<bar>" by (rule to_double_double [OF d])
  finally show "js_div (the_number p) (the_number q) = the_number (p / q)"
    by (simp only: the_number_def)
next
  assume nz: "p + q \<noteq> 0"
  then have "rounds_to (p + q) (to_double (p + q < 0) \<bar>p + q\<bar>)"
    by (rule to_double_rounds)
  then show "rounds_to (p + q) (js_add (the_number p) (the_number q))"
    using nz by (simp only: js_add_the_number if_False)
next
  assume nz: "p - q \<noteq> 0"
  then have "rounds_to (p - q) (to_double (p - q < 0) \<bar>p - q\<bar>)"
    by (rule to_double_rounds)
  then show "rounds_to (p - q) (js_sub (the_number p) (the_number q))"
    using nz by (simp only: js_sub_the_number if_False)
next
  assume nz: "p * q \<noteq> 0"
  then have "rounds_to (p * q) (to_double (p * q < 0) \<bar>p * q\<bar>)"
    by (rule to_double_rounds)
  then show "rounds_to (p * q) (js_mul (the_number p) (the_number q))"
    by (simp only: js_mul_the_number [OF nz])
next
  assume nz: "p / q \<noteq> 0"
  then have "rounds_to (p / q) (to_double (p / q < 0) \<bar>p / q\<bar>)"
    by (rule to_double_rounds)
  then show "rounds_to (p / q) (js_div (the_number p) (the_number q))"
    by (simp only: js_div_the_number [OF nz])
next
  assume "p + q = 0"
  then have "js_add (the_number p) (the_number q) = Finite False 0"
    by (simp only: js_add_the_number refl if_True)
  then show "js_add (the_number p) (the_number q) = the_number 0"
    by (simp add: the_number_def [of 0])
next
  assume "p - q = 0"
  then have "js_sub (the_number p) (the_number q) = Finite False 0"
    by (simp only: js_sub_the_number refl if_True)
  then show "js_sub (the_number p) (the_number q) = the_number 0"
    by (simp add: the_number_def [of 0])
next
  assume "p * q = 0"
  then have z: "\<bar>p\<bar> * \<bar>q\<bar> = 0" by auto
  have "js_mul (the_number p) (the_number q) = to_double ((p < 0) \<noteq> (q < 0)) (\<bar>p\<bar> * \<bar>q\<bar>)"
    unfolding the_number_def by (rule js_mul.simps)
  also have "\<dots> = to_double ((p < 0) \<noteq> (q < 0)) 0" by (simp only: z)
  also have "\<dots> = Finite ((p < 0) \<noteq> (q < 0)) 0" by (rule to_double_zero)
  finally show "js_mul (the_number p) (the_number q) = Finite ((p < 0) \<noteq> (q < 0)) 0" .
next
  assume h: "p = 0 \<and> q \<noteq> 0"
  then have q: "\<bar>q\<bar> \<noteq> 0" by simp
  have "js_div (the_number p) (the_number q) = to_double ((p < 0) \<noteq> (q < 0)) (\<bar>p\<bar> / \<bar>q\<bar>)"
    unfolding the_number_def using q by (simp only: js_div.simps if_False)
  also have "\<dots> = to_double (q < 0) 0" using h by simp
  also have "\<dots> = Finite (q < 0) 0" by (rule to_double_zero)
  finally show "js_div (the_number p) (the_number q) = Finite (q < 0) 0" .
qed

text \<open>
  The theorem at the tree of \<^verbatim>\<open>"sub 20 mul 2 div 9 sum 1 2"\<close>, which has the four
  operators and evaluates to 14, at the operations on its values, at the division of 1
  by 3, and at operations whose result is 0.
\<close>

theorem evaluate_fold_witness:
  "recognized (parse (lex ''sub 20 mul 2 div 9 sum 1 2'')) \<and>
   evaluate object_prototype (parse (lex ''sub 20 mul 2 div 9 sum 1 2''))
     = Inr (fold_eval (parse (lex ''sub 20 mul 2 div 9 sum 1 2''))) \<and>
   fold_eval (parse (lex ''sub 20 mul 2 div 9 sum 1 2'')) = Finite False 14 \<and>
   js_add (Finite False 1) (Finite False 2) = Finite False 3 \<and>
   js_sub (Finite False 20) (Finite False 6) = Finite False 14 \<and>
   js_sub (Finite False 2) (Finite False 8) = Finite True 6 \<and>
   js_mul (Finite False 2) (Finite False 3) = Finite False 6 \<and>
   js_div (Finite False 9) (Finite False 3) = Finite False 3 \<and>
   rounds_to (1 / 3) (js_div (Finite False 1) (Finite False 3)) \<and>
   rounds_to 3 (js_add (Finite False 1) (Finite False 2)) \<and>
   rounds_to (- 1) (js_sub (Finite False 1) (Finite False 2)) \<and>
   rounds_to 2 (js_mul (Finite False 1) (Finite False 2)) \<and>
   js_add (Finite False 2) (Finite True 2) = Finite False 0 \<and>
   js_sub (Finite False 2) (Finite False 2) = Finite False 0 \<and>
   js_mul (Finite False 0) (Finite True 2) = Finite True 0 \<and>
   js_div (Finite False 0) (Finite True 2) = Finite True 0"
proof -
  have l: "lex ''sub 20 mul 2 div 9 sum 1 2''
      = [''sub'', ''20'', ''mul'', ''2'', ''div'', ''9'', ''sum'', ''1'', ''2'']"
    by (simp add: lex_eval)
  have p: "parse [''sub'', ''20'', ''mul'', ''2'', ''div'', ''9'', ''sum'', ''1'', ''2''] =
    OperationParser (Some ''sub'')
      [NumberParser (Finite False 20),
       OperationParser (Some ''mul'')
        [NumberParser (Finite False 2),
         OperationParser (Some ''div'')
          [NumberParser (Finite False 9),
           OperationParser (Some ''sum'')
            [NumberParser (Finite False 1), NumberParser (Finite False 2)]]]]"
    by (simp add: parse_eval parseInt_eval)
  have r: "recognized (parse (lex ''sub 20 mul 2 div 9 sum 1 2''))"
    by (simp add: l p)
  have v: "fold_eval (parse (lex ''sub 20 mul 2 div 9 sum 1 2'')) = Finite False 14"
    by (simp add: l p fold_first_def js_sub_def signed_def)
  have n: "the_number 1 = Finite False 1" "the_number 2 = Finite False 2"
    "the_number 3 = Finite False 3" "the_number 6 = Finite False 6"
    "the_number 8 = Finite False 8" "the_number 9 = Finite False 9"
    "the_number 14 = Finite False 14" "the_number 20 = Finite False 20"
    "the_number (- 6) = Finite True 6" "the_number (- 2) = Finite True 2"
    "the_number 0 = Finite False 0"
    by (simp_all add: the_number_def)
  have d: "double 3" "double 14" "double (- 6)" "double 6"
    using double_numeral [of "num.Bit1 num.One"] double_numeral [of "num.Bit0 (num.Bit1 (num.Bit1 num.One))"]
      double_numeral [of "num.Bit0 (num.Bit1 num.One)"]
    by (simp_all add: double_def)
  note t1 = evaluate_fold [where ast = "parse (lex ''sub 20 mul 2 div 9 sum 1 2'')" and p = 1 and q = 2
      and proto = object_prototype]
  note t2 = evaluate_fold [where ast = "parse (lex ''sub 20 mul 2 div 9 sum 1 2'')" and p = 20 and q = 6
      and proto = object_prototype]
  note t3 = evaluate_fold [where ast = "parse (lex ''sub 20 mul 2 div 9 sum 1 2'')" and p = 2 and q = 8
      and proto = object_prototype]
  note t4 = evaluate_fold [where ast = "parse (lex ''sub 20 mul 2 div 9 sum 1 2'')" and p = 2 and q = 3
      and proto = object_prototype]
  note t5 = evaluate_fold [where ast = "parse (lex ''sub 20 mul 2 div 9 sum 1 2'')" and p = 9 and q = 3
      and proto = object_prototype]
  note t6 = evaluate_fold [where ast = "parse (lex ''sub 20 mul 2 div 9 sum 1 2'')" and p = 1 and q = 3
      and proto = object_prototype]
  note t7 = evaluate_fold [where ast = "parse (lex ''sub 20 mul 2 div 9 sum 1 2'')" and p = 2 and q = "- 2"
      and proto = object_prototype]
  note t8 = evaluate_fold [where ast = "parse (lex ''sub 20 mul 2 div 9 sum 1 2'')" and p = 2 and q = 2
      and proto = object_prototype]
  note t9 = evaluate_fold [where ast = "parse (lex ''sub 20 mul 2 div 9 sum 1 2'')" and p = 0 and q = "- 2"
      and proto = object_prototype]
  have e: "evaluate object_prototype (parse (lex ''sub 20 mul 2 div 9 sum 1 2''))
     = Inr (fold_eval (parse (lex ''sub 20 mul 2 div 9 sum 1 2'')))"
    using t1 r by blast
  have a1: "js_add (Finite False 1) (Finite False 2) = Finite False 3"
    using t1 d by (simp add: n)
  have a2: "js_sub (Finite False 20) (Finite False 6) = Finite False 14"
    using t2 d by (simp add: n)
  have a3: "js_sub (Finite False 2) (Finite False 8) = Finite True 6"
    using t3 d by (simp add: n)
  have a4: "js_mul (Finite False 2) (Finite False 3) = Finite False 6"
    using t4 d by (simp add: n)
  have a5: "js_div (Finite False 9) (Finite False 3) = Finite False 3"
    using t5 d by (simp add: n)
  have a6: "rounds_to (1 / 3) (js_div (Finite False 1) (Finite False 3))"
    using t6 by (simp add: n)
  have b1: "rounds_to 3 (js_add (Finite False 1) (Finite False 2))"
    "rounds_to (- 1) (js_sub (Finite False 1) (Finite False 2))"
    "rounds_to 2 (js_mul (Finite False 1) (Finite False 2))"
    using t1 by (simp_all add: n)
  have z1: "js_add (Finite False 2) (Finite True 2) = Finite False 0"
    using t7 by (simp add: n)
  have z2: "js_sub (Finite False 2) (Finite False 2) = Finite False 0"
    using t8 by (simp add: n)
  have z3: "js_mul (Finite False 0) (Finite True 2) = Finite True 0"
    "js_div (Finite False 0) (Finite True 2) = Finite True 0"
    using t9 by (simp_all add: n)
  show ?thesis using r e v a1 a2 a3 a4 a5 a6 b1 z1 z2 z3 by blast
qed

text \<open>A tree of the specification evaluates to a number, whatever it divides by.\<close>

lemma evaluate_returns:
  "recognized ast \<Longrightarrow> \<exists>v. evaluate proto ast = Inr v"
proof (induction ast)
  case (NumberParser val)
  then show ?case by simp
next
  case (OperationParser val expression)
  have "evaluate proto e = Inr (projr (evaluate proto e))" if "e \<in> set expression" for e
  proof -
    have "\<exists>v. evaluate proto e = Inr v"
      using OperationParser that by (simp add: list_all_iff)
    then show ?thesis by auto
  qed
  then have seq: "sequence (map (evaluate proto) expression)
      = Inr (map (\<lambda>e. projr (evaluate proto e)) expression)"
    by (rule sequence_values)
  have ne: "val \<in> {Some ''sub'', Some ''div''} \<Longrightarrow>
      map (\<lambda>e. projr (evaluate proto e)) expression \<noteq> []"
    using OperationParser.prems by simp
  have "val \<in> {Some ''sum'', Some ''sub'', Some ''div'', Some ''mul''}"
    using OperationParser.prems by simp
  then consider "val = Some ''sum''" | "val = Some ''sub''" | "val = Some ''div''"
    | "val = Some ''mul''" by blast
  then show ?case
  proof cases
    case 1
    then show ?thesis by (simp add: seq evaluate_lookup)
  next
    case 2
    then show ?thesis using ne
      by (cases "map (\<lambda>e. projr (evaluate proto e)) expression")
        (simp_all add: seq evaluate_lookup)
  next
    case 3
    then show ?thesis using ne
      by (cases "map (\<lambda>e. projr (evaluate proto e)) expression")
        (simp_all add: seq evaluate_lookup)
  next
    case 4
    then show ?thesis by (simp add: seq evaluate_lookup)
  qed
qed

text \<open>
  Claim C1, as amended. \<^verbatim>\<open>evaluate\<close> signals no division by zero. Every tree whose
  operators are among the four and whose \<^verbatim>\<open>sub\<close> and \<^verbatim>\<open>div\<close> nodes have an operand
  evaluates to a number, zero operands of \<^verbatim>\<open>div\<close> nodes included. Whenever the operands
  of a \<^verbatim>\<open>div\<close> node evaluate to numbers and there is at least one, the node evaluates to
  the left fold of the division from the first value. Dividing a finite value by a zero
  gives an infinity, whose sign is negative exactly when the two signs differ, or \<open>NaN\<close>
  when the dividend is a zero too.
\<close>

theorem evaluate_div_returns:
  "(recognized ast \<longrightarrow> (\<exists>r. evaluate proto ast = Inr r)) \<and>
   (sequence (map (evaluate proto) expression) = Inr (v # vs) \<longrightarrow>
      evaluate proto (OperationParser (Some ''div'') expression) = Inr (foldl js_div v vs)) \<and>
   js_div (Finite s x) (Finite t 0) = (if x = 0 then NaN else Infinity (s \<noteq> t))"
proof (intro conjI impI)
  assume "recognized ast"
  then show "\<exists>r. evaluate proto ast = Inr r" by (rule evaluate_returns)
next
  assume "sequence (map (evaluate proto) expression) = Inr (v # vs)"
  then show "evaluate proto (OperationParser (Some ''div'') expression)
      = Inr (foldl js_div v vs)"
    by (simp add: evaluate_lookup)
next
  show "js_div (Finite s x) (Finite t 0) = (if x = 0 then NaN else Infinity (s \<noteq> t))"
    by simp
qed

text \<open>
  The theorem at the tree of \<^verbatim>\<open>"sum 1 div 4 0"\<close>, which is one of the specification's
  trees and evaluates to \<^verbatim>\<open>Infinity\<close>, and at the divisions of \<open>- 1\<close> by 0 and of 0 by 0.
\<close>

theorem evaluate_div_returns_witness:
  "recognized (parse [''sum'', ''1'', ''div'', ''4'', ''0'']) \<and>
   evaluate object_prototype (parse [''sum'', ''1'', ''div'', ''4'', ''0''])
     = Inr (Infinity False) \<and>
   evaluate object_prototype
     (OperationParser (Some ''div'')
        [NumberParser (Finite True 1), NumberParser (Finite False 0)]) = Inr (Infinity True) \<and>
   evaluate object_prototype
     (OperationParser (Some ''div'')
        [NumberParser (Finite False 0), NumberParser (Finite False 0)]) = Inr NaN"
proof -
  have p: "parse [''sum'', ''1'', ''div'', ''4'', ''0''] =
    OperationParser (Some ''sum'')
      [NumberParser (Finite False 1),
       OperationParser (Some ''div'')
         [NumberParser (Finite False 4), NumberParser (Finite False 0)]]"
    by (simp add: parse_eval parseInt_eval)
  have r: "recognized (parse [''sum'', ''1'', ''div'', ''4'', ''0''])"
    by (simp add: p)
  note t1 = evaluate_div_returns [of "parse [''sum'', ''1'', ''div'', ''4'', ''0'']"
      object_prototype
      "[NumberParser (Finite True 1), NumberParser (Finite False 0)]"
      "Finite True 1" "[Finite False 0]" True 1 False]
  note t2 = evaluate_div_returns [of "parse [''sum'', ''1'', ''div'', ''4'', ''0'']"
      object_prototype
      "[NumberParser (Finite False 0), NumberParser (Finite False 0)]"
      "Finite False 0" "[Finite False 0]" False 0 False]
  obtain w where w: "evaluate object_prototype (parse [''sum'', ''1'', ''div'', ''4'', ''0''])
      = Inr w"
    using t1 r by blast
  have "evaluate object_prototype (parse [''sum'', ''1'', ''div'', ''4'', ''0''])
      = Inr (Infinity False)"
    by (simp add: p evaluate_eval)
  with w have "w = Infinity False" by simp
  then show ?thesis using r w t1 t2 by simp
qed

text \<open>
  Claim C1 as stated fails: the tree of \<^verbatim>\<open>"div 4 0"\<close> evaluates to the number
  \<^verbatim>\<open>Infinity\<close>.
\<close>

theorem evaluate_div_zero_counterexample:
  "evaluate object_prototype (parse (lex ''div 4 0'')) = Inr (Infinity False)"
  by (simp add: lex_def trim_def parse_eval parseInt_eval evaluate_eval)

text \<open>
  Claim C10. A \<^verbatim>\<open>div\<close> node with two or more operands, whatever trees they are,
  evaluates to the left fold of the division of numbers over the values of its operands
  whenever these evaluate to numbers. That division does not truncate: when the quotient
  of two finite values is a double, the division returns that quotient; and whenever it
  returns a finite value for a positive quotient, that value differs from the quotient
  by at most its \<open>2 powi 53\<close>-th part (or by \<open>2 powi (- 1075)\<close>, for the smallest
  values). So a tree of integer literals can evaluate to a number that is not an
  integer.
\<close>

theorem evaluate_div_exact:
  "(sequence (map (evaluate proto) expression) = Inr (a # b # cs) \<longrightarrow>
      evaluate proto (OperationParser (Some ''div'') expression)
        = Inr (foldl js_div (js_div a b) cs)) \<and>
   evaluate proto (OperationParser (Some ''div'') (map NumberParser (a # b # cs)))
     = Inr (foldl js_div (js_div a b) cs) \<and>
   (0 < m \<and> m < 2 ^ 53 \<and> - 1074 \<le> e \<and> e \<le> 971 \<and> y \<noteq> 0 \<and> x / y = of_int m * 2 powi e
      \<longrightarrow> js_div (Finite s x) (Finite t y) = Finite (s \<noteq> t) (x / y)) \<and>
   (0 < x / y \<and> js_div (Finite s x) (Finite t y) = Finite u v
      \<longrightarrow> \<bar>v - x / y\<bar> \<le> max (x / y * 2 powi (- 53)) (2 powi (- 1075)))"
proof (intro conjI impI)
  assume "sequence (map (evaluate proto) expression) = Inr (a # b # cs)"
  then show "evaluate proto (OperationParser (Some ''div'') expression)
      = Inr (foldl js_div (js_div a b) cs)"
    by (simp add: evaluate_lookup)
next
  have "sequence (map (evaluate proto) (map NumberParser (a # b # cs))) = Inr (a # b # cs)"
    by (rule sequence_numbers)
  then show "evaluate proto (OperationParser (Some ''div'') (map NumberParser (a # b # cs)))
     = Inr (foldl js_div (js_div a b) cs)"
    by (simp add: evaluate_lookup)
next
  assume h: "0 < m \<and> m < 2 ^ 53 \<and> - 1074 \<le> e \<and> e \<le> 971 \<and> y \<noteq> 0 \<and>
    x / y = of_int m * 2 powi e"
  then have "to_double (s \<noteq> t) (x / y) = Finite (s \<noteq> t) (x / y)"
    by (intro to_double_exact [where m = m and e = e]) simp_all
  then show "js_div (Finite s x) (Finite t y) = Finite (s \<noteq> t) (x / y)"
    using h by simp
next
  assume h: "0 < x / y \<and> js_div (Finite s x) (Finite t y) = Finite u v"
  then have y: "y \<noteq> 0" by auto
  then have "to_double (s \<noteq> t) (x / y) = Finite u v" using h by simp
  then show "\<bar>v - x / y\<bar> \<le> max (x / y * 2 powi (- 53)) (2 powi (- 1075))"
    using h by (intro to_double_error) simp_all
qed

text \<open>
  The theorem at \<^verbatim>\<open>"div 3 2"\<close> and at \<^verbatim>\<open>"div 3 sum 1 1"\<close>, whose second operand is an
  operation: the quotient is 3 times \<open>2 powi (- 1)\<close>, and both trees evaluate to
  \<open>3 / 2\<close>, not to 1.
\<close>

theorem evaluate_div_exact_witness:
  "evaluate object_prototype (parse (lex ''div 3 2'')) = Inr (Finite False (3 / 2)) \<and>
   evaluate object_prototype (parse (lex ''div 3 sum 1 1'')) = Inr (Finite False (3 / 2)) \<and>
   js_div (Finite False 3) (Finite False 2) = Finite False (3 / 2) \<and>
   Finite False (3 / 2) \<noteq> Finite False 1"
proof -
  have l: "lex ''div 3 2'' = [''div'', ''3'', ''2'']"
    by (simp add: lex_eval)
  have p: "parse [''div'', ''3'', ''2''] =
    OperationParser (Some ''div'') (map NumberParser [Finite False 3, Finite False 2])"
    by (simp add: parse_eval parseInt_eval)
  have l': "lex ''div 3 sum 1 1'' = [''div'', ''3'', ''sum'', ''1'', ''1'']"
    by (simp add: lex_eval)
  have p': "parse [''div'', ''3'', ''sum'', ''1'', ''1''] =
    OperationParser (Some ''div'')
      [NumberParser (Finite False 3),
       OperationParser (Some ''sum'') [NumberParser (Finite False 1), NumberParser (Finite False 1)]]"
    by (simp add: parse_eval parseInt_eval)
  have s': "sequence (map (evaluate object_prototype)
      [NumberParser (Finite False 3),
       OperationParser (Some ''sum'') [NumberParser (Finite False 1), NumberParser (Finite False 1)]])
      = Inr [Finite False 3, Finite False 2]"
    by (simp add: evaluate_eval)
  note t = evaluate_div_exact [of object_prototype
      "[NumberParser (Finite False 3),
       OperationParser (Some ''sum'') [NumberParser (Finite False 1), NumberParser (Finite False 1)]]"
      "Finite False 3" "Finite False 2" "[]"
      3 "- 1" 2 3 False False False "3 / 2"]
  have d: "js_div (Finite False 3) (Finite False 2) = Finite False (3 / 2)"
    using t by simp
  have "evaluate object_prototype (parse (lex ''div 3 2'')) = Inr (Finite False (3 / 2))"
    using t unfolding l p d by simp
  moreover have "evaluate object_prototype (parse (lex ''div 3 sum 1 1''))
      = Inr (Finite False (3 / 2))"
    using t s' unfolding l' p' d by simp
  ultimately show ?thesis using d by simp
qed

section \<open>Properties of the code generator\<close>

text \<open>
  Claim C2, as amended. \<^verbatim>\<open>compile\<close> signals no failure on an operator that is none of
  the four: it returns the strings of the operands, joined with the string form of what
  the lookup gives between two spaces, in parentheses. The lookup gives \<^verbatim>\<open>undefined\<close>,
  or a property of \<^verbatim>\<open>Object.prototype\<close> when the operator is the name of one.
\<close>

theorem compile_unknown_operator:
  "ToString val \<notin> {''sum'', ''sub'', ''div'', ''mul''} \<Longrightarrow>
     compile proto (OperationParser val expression) =
       StringValue
         (''('' @
          join ('' '' @
                (case proto (ToString val) of Some text \<Rightarrow> text | None \<Rightarrow> ''undefined'') @
                '' '')
            (map (\<lambda>e. to_string (compile proto e)) expression) @
          '')'')"
  by (simp add: get_property_def compile_operationMap_def property_text_def split: option.splits)

text \<open>The theorem at the operators \<^verbatim>\<open>pow\<close> and \<^verbatim>\<open>valueOf\<close>, with the operands 2 and 3.\<close>

theorem compile_unknown_operator_witness:
  "compile object_prototype
     (OperationParser (Some ''pow'') [NumberParser (Finite False 2), NumberParser (Finite False 3)])
     = StringValue ''(2 undefined 3)'' \<and>
   compile object_prototype
     (OperationParser (Some ''valueOf'')
        [NumberParser (Finite False 2), NumberParser (Finite False 3)])
     = StringValue ''(2 function valueOf() { [native code] } 3)''"
  using compile_unknown_operator [of "Some ''pow''" object_prototype
      "[NumberParser (Finite False 2), NumberParser (Finite False 3)]"]
    compile_unknown_operator [of "Some ''valueOf''" object_prototype
      "[NumberParser (Finite False 2), NumberParser (Finite False 3)]"]
  by (simp add: ToString_def object_prototype_def number_to_string_eval)

text \<open>
  Claim C2 as stated fails: the tree of \<^verbatim>\<open>"foo 1 2"\<close> compiles to a string.
\<close>

theorem compile_unknown_operator_counterexample:
  "compile object_prototype (parse (lex ''foo 1 2'')) = StringValue ''(1 undefined 2)''"
  by (simp add: lex_def trim_def parse_eval parseInt_eval compile_eval number_to_string_eval)

text \<open>
  Claim C7, as amended. For a number node \<^verbatim>\<open>compile\<close> returns the number itself; its
  string form is what an enclosing operation joins. For an operation node with one of
  the four operators it returns the strings of the compiled operands, in order, joined
  with the symbol of the operator between two spaces, in parentheses. One operand gives
  its string in parentheses with no symbol, and no operand gives \<^verbatim>\<open>()\<close>.
\<close>

theorem compile_shape:
  "compile proto (NumberParser val) = NumberValue val \<and>
   to_string (compile proto (NumberParser val)) = number_to_string val \<and>
   compile proto (OperationParser (Some ''sum'') expression) =
     StringValue (''('' @ join '' + '' (map (\<lambda>e. to_string (compile proto e)) expression) @ '')'') \<and>
   compile proto (OperationParser (Some ''sub'') expression) =
     StringValue (''('' @ join '' - '' (map (\<lambda>e. to_string (compile proto e)) expression) @ '')'') \<and>
   compile proto (OperationParser (Some ''div'') expression) =
     StringValue (''('' @ join '' / '' (map (\<lambda>e. to_string (compile proto e)) expression) @ '')'') \<and>
   compile proto (OperationParser (Some ''mul'') expression) =
     StringValue (''('' @ join '' * '' (map (\<lambda>e. to_string (compile proto e)) expression) @ '')'') \<and>
   compile proto (OperationParser operator [e]) =
     StringValue (''('' @ to_string (compile proto e) @ '')'') \<and>
   compile proto (OperationParser operator []) = StringValue ''()''"
  by (simp add: get_property_def compile_operationMap_def property_text_def ToString_def)

text \<open>
  Claim C7 as stated fails at a number node: the tree of \<^verbatim>\<open>"5"\<close> compiles to the
  number 5 and not to the string \<^verbatim>\<open>5\<close>.
\<close>

theorem compile_number_counterexample:
  "compile object_prototype (parse (lex ''5'')) = NumberValue (Finite False 5) \<and>
   NumberValue (Finite False 5) \<noteq> StringValue ''5''"
  by (simp add: lex_def trim_def parse_eval parseInt_eval)

section \<open>The scenarios of the specification\<close>

text \<open>
  The five scenarios of the specification, computed: the tokens, the tree, the value
  and the compiled string of each input. In the fifth, the evaluation stops with the
  \<^verbatim>\<open>TypeError\<close> of \<^verbatim>\<open>reduce\<close> on an empty array.
\<close>

lemma scenario_sum:
  "lex ''sum 1 2 3'' = [''sum'', ''1'', ''2'', ''3''] \<and>
   parse (lex ''sum 1 2 3'') =
     OperationParser (Some ''sum'')
       [NumberParser (Finite False 1), NumberParser (Finite False 2),
        NumberParser (Finite False 3)] \<and>
   evaluate object_prototype (parse (lex ''sum 1 2 3'')) = Inr (Finite False 6) \<and>
   compile object_prototype (parse (lex ''sum 1 2 3'')) = StringValue ''(1 + 2 + 3)''"
  by (simp add: lex_def trim_def parse_eval parseInt_eval evaluate_eval compile_eval
        number_to_string_eval)

lemma scenario_sub:
  "lex ''sub 2 sum 1 3 4'' = [''sub'', ''2'', ''sum'', ''1'', ''3'', ''4''] \<and>
   parse (lex ''sub 2 sum 1 3 4'') =
     OperationParser (Some ''sub'')
       [NumberParser (Finite False 2),
        OperationParser (Some ''sum'')
          [NumberParser (Finite False 1), NumberParser (Finite False 3),
           NumberParser (Finite False 4)]] \<and>
   evaluate object_prototype (parse (lex ''sub 2 sum 1 3 4'')) = Inr (Finite True 6) \<and>
   compile object_prototype (parse (lex ''sub 2 sum 1 3 4''))
     = StringValue ''(2 - (1 + 3 + 4))''"
  by (simp add: lex_def trim_def parse_eval parseInt_eval evaluate_eval compile_eval
        number_to_string_eval)

lemma scenario_mul:
  "evaluate object_prototype (parse (lex ''mul 2 3 4'')) = Inr (Finite False 24) \<and>
   compile object_prototype (parse (lex ''mul 2 3 4'')) = StringValue ''(2 * 3 * 4)''"
  by (simp add: lex_def trim_def parse_eval parseInt_eval evaluate_eval compile_eval
        number_to_string_eval)

lemma scenario_div:
  "evaluate object_prototype (parse (lex ''div 4 0'')) = Inr (Infinity False) \<and>
   compile object_prototype (parse (lex ''div 4 0'')) = StringValue ''(4 / 0)''"
  by (simp add: lex_def trim_def parse_eval parseInt_eval evaluate_eval compile_eval
        number_to_string_eval)

lemma scenario_no_operand:
  "parse (lex ''sub'') = OperationParser (Some ''sub'') [] \<and>
   evaluate object_prototype (parse (lex ''sub'')) = Inl ReduceOfEmptyArray \<and>
   compile object_prototype (parse (lex ''sub'')) = StringValue ''()''"
  by (simp add: lex_def trim_def parse_eval parseInt_eval evaluate_eval compile_eval)

end
